theory Spec2Isabelle
  imports Complex_Main
begin

section \<open>Colour arithmetic (colorUtils.js, repeated verbatim in game.js)\<close>

text \<open>
  A colour is a JavaScript array of three numbers. The numbers are modelled as exact
  rationals: \<open>Math.round x\<close> is \<open>\<lfloor>x + 1/2\<rfloor>\<close> (halves go up), \<open>Math.floor\<close> is
  \<open>\<lfloor>x\<rfloor>\<close>. JavaScript computes in IEEE doubles, and the two arithmetics do not
  always agree: in \<open>rgbToRyb\<close> the product \<open>y * factor\<close> for the colour (0, 58, 59)
  is exactly 29.5 here and slightly less in doubles, so the model rounds it to 30 where
  the code rounds to 29. Nothing below depends on such a value. The closed evaluations
  of the colour functions are at pure colours, black and white, where every intermediate
  value is an integer or one of the interpolation weights 0 and 1 and both arithmetics
  agree; commutativity of mixing uses commutativity of addition only, which doubles
  obey; and the theorems about the grid hold for any mixing and adjusting functions.
\<close>

type_synonym color = "rat \<times> rat \<times> rat"

definition Math_round :: "rat \<Rightarrow> rat" where
  "Math_round x = of_int \<lfloor>x + 1 / 2\<rfloor>"

definition Math_floor :: "rat \<Rightarrow> rat" where
  "Math_floor x = of_int \<lfloor>x\<rfloor>"

text \<open>\<open>color[component]\<close> for the indices 0, 1, 2 the code uses.\<close>

fun channel :: "color \<Rightarrow> nat \<Rightarrow> rat" where
  "channel (r, g, b) component = (if component = 0 then r else if component = 1 then g else b)"

definition cubicInt :: "rat \<Rightarrow> rat \<Rightarrow> rat \<Rightarrow> rat" where
  "cubicInt t a b = (let weight = t * t * (3 - 2 * t) in a + weight * (b - a))"

definition interpolateComponent :: "rat \<Rightarrow> rat \<Rightarrow> rat \<Rightarrow> color list \<Rightarrow> nat \<Rightarrow> rat" where
  "interpolateComponent iR iY iB colors component =
     (let x0 = cubicInt iB (channel (colors ! 0) component) (channel (colors ! 1) component);
          x1 = cubicInt iB (channel (colors ! 2) component) (channel (colors ! 3) component);
          x2 = cubicInt iB (channel (colors ! 4) component) (channel (colors ! 5) component);
          x3 = cubicInt iB (channel (colors ! 6) component) (channel (colors ! 7) component);
          y0 = cubicInt iY x0 x1;
          y1 = cubicInt iY x2 x3
      in cubicInt iR y0 y1)"

definition COLORS :: "color list" where
  "COLORS = [(255, 255, 255), (0, 0, 255), (255, 255, 0), (0, 255, 0),
             (255, 0, 0), (128, 0, 128), (255, 128, 0), (0, 0, 0)]"

definition rybToRgb :: "color \<Rightarrow> color" where
  "rybToRgb ryb =
     (let r = channel ryb 0 / 255;
          y = channel ryb 1 / 255;
          b = channel ryb 2 / 255;
          outR = interpolateComponent r y b COLORS 0;
          outG = interpolateComponent r y b COLORS 1;
          outB = interpolateComponent r y b COLORS 2
      in (Math_round (min 255 (max 0 outR)),
          Math_round (min 255 (max 0 outG)),
          Math_round (min 255 (max 0 outB))))"

text \<open>
  \<open>rgbToRyb\<close> reassigns its locals \<open>r\<close>, \<open>g\<close>, \<open>b\<close>, \<open>y\<close>; each assignment is a new
  binding here, numbered in program order.
\<close>

definition rgbToRyb :: "color \<Rightarrow> color" where
  "rgbToRyb rgb =
     (let r0 = channel rgb 0; g0 = channel rgb 1; b0 = channel rgb 2;
          white = min (min r0 g0) b0;
          r1 = r0 - white; g1 = g0 - white; b1 = b0 - white;
          maxG = max (max r1 g1) b1;
          y0 = min r1 g1;
          r2 = r1 - y0; g2 = g1 - y0;
          (b2, g3) = (if b1 > 0 \<and> g2 > 0 then (Math_floor (b1 / 2), Math_floor (g2 / 2))
                      else (b1, g2));
          y1 = y0 + g3;
          b3 = b2 + g3;
          maxRYB = max (max r2 y1) b3;
          (r3, y2, b4) =
            (if maxRYB > 0
             then (let factor = maxG / maxRYB
                   in (Math_round (r2 * factor), Math_round (y1 * factor), Math_round (b3 * factor)))
             else (r2, y1, b3))
      in (r3 + white, y2 + white, b4 + white))"

definition mixColors :: "color \<Rightarrow> color \<Rightarrow> color" where
  "mixColors color1 color2 =
     (let ryb1 = rgbToRyb color1;
          ryb2 = rgbToRyb color2;
          mixedRyb = (Math_round ((channel ryb1 0 + channel ryb2 0) / 2),
                      Math_round ((channel ryb1 1 + channel ryb2 1) / 2),
                      Math_round ((channel ryb1 2 + channel ryb2 2) / 2))
      in rybToRgb mixedRyb)"

text \<open>
  \<open>adjustColor\<close> of game.js; \<open>null\<close> is \<open>None\<close>, and any mode other than
  \<open>'darken'\<close> brightens. The factors 0.8 and 1.2 are taken as the exact fractions.
\<close>

datatype mode = Darken | Lighten

definition adjustColor :: "color option \<Rightarrow> mode \<Rightarrow> color option" where
  "adjustColor color m =
     (case color of
        None \<Rightarrow> None
      | Some (r, g, b) \<Rightarrow>
          (let factor = (if m = Darken then 8 / 10 else 12 / 10);
               f = (\<lambda>v. max 0 (min 255 (Math_round (v * factor))))
           in Some (f r, f g, f b)))"

section \<open>The factory grid: data (game.js)\<close>

text \<open>
  Identifiers are the strings \<open>c-N\<close>, \<open>p-N\<close> and \<open>link-N\<close> built by \<open>nextId\<close> from
  one shared counter; only identifiers of the same kind are ever compared, so the model
  keeps the number \<open>N\<close>. The key \<open>portKey ref\<close>, the string
  \<open>componentId:portId\<close>, is the pair of the two numbers. DOM elements, positions and
  the port's side are view data and are left out.
\<close>

datatype role = Input | Output | Flex

datatype ctype = Factory | Adder | Gradientor | Storage

record port =
  port_id :: nat
  port_role :: role

record portRef =
  componentId :: nat
  portId :: nat

record connection =
  conn_id :: nat
  conn_from :: portRef
  conn_to :: portRef

text \<open>\<open>storageSlots\<close> is \<open>null\<close> (\<open>None\<close>) or an object from port ids to a colour or
  \<open>null\<close>; a missing property and a stored \<open>null\<close> are kept apart.\<close>

record component =
  comp_id :: nat
  comp_type :: ctype
  comp_color :: "color option"
  comp_ports :: "port list"
  storageSlots :: "(nat \<rightharpoonup> color option) option"
  comp_mode :: "mode option"

record options =
  opt_color :: "color option"
  opt_mode :: "mode option"

text \<open>The module's global variables.\<close>

record state =
  components :: "component list"
  connections :: "connection list"
  selectedPort :: "portRef option"
  idCounter :: nat

type_synonym portOutputs = "(nat \<times> nat) \<rightharpoonup> color option"

definition nextId :: "state \<Rightarrow> nat \<times> state" where
  "nextId st = (let st' = st\<lparr>idCounter := idCounter st + 1\<rparr> in (idCounter st', st'))"

definition portKey :: "portRef \<Rightarrow> nat \<times> nat" where
  "portKey ref = (componentId ref, portId ref)"

fun colorsEqual :: "color option \<Rightarrow> color option \<Rightarrow> bool" where
  "colorsEqual None None = True"
| "colorsEqual None (Some b) = False"
| "colorsEqual (Some a) None = False"
| "colorsEqual (Some a) (Some b) =
     (channel a 0 = channel b 0 \<and> channel a 1 = channel b 1 \<and> channel a 2 = channel b 2)"

text \<open>\<open>map.get(key) || null\<close>, which is also \<open>map.has(key) ? map.get(key) : null\<close>.\<close>

definition getOutput :: "portOutputs \<Rightarrow> nat \<times> nat \<Rightarrow> color option" where
  "getOutput m key = (case m key of None \<Rightarrow> None | Some v \<Rightarrow> v)"

definition setPortOutput :: "portOutputs \<Rightarrow> nat \<times> nat \<Rightarrow> color option \<Rightarrow> portOutputs \<times> bool" where
  "setPortOutput m key color =
     (let normalized = color;
          current = getOutput m key
      in if colorsEqual current normalized then (m, False)
         else (m(key \<mapsto> normalized), True))"

section \<open>Creating components\<close>

text \<open>\<open>addPort\<close> draws the port id and pushes the port onto the component.\<close>

definition addPort :: "role \<Rightarrow> component \<times> state \<Rightarrow> component \<times> state" where
  "addPort r cs =
     (let (c, st) = cs;
          (portId, st') = nextId st
      in (c\<lparr>comp_ports := comp_ports c @ [\<lparr>port_id = portId, port_role = r\<rparr>]\<rparr>, st'))"

definition buildPorts :: "component \<times> state \<Rightarrow> component \<times> state" where
  "buildPorts cs =
     (case comp_type (fst cs) of
        Factory \<Rightarrow> (addPort Output ^^ 4) cs
      | Adder \<Rightarrow> addPort Output (addPort Input (addPort Input cs))
      | Gradientor \<Rightarrow> addPort Output (addPort Input cs)
      | Storage \<Rightarrow> (addPort Flex ^^ 3) ((addPort Flex ^^ 3) cs))"

definition createComponent :: "ctype \<Rightarrow> options \<Rightarrow> state \<Rightarrow> component \<times> state" where
  "createComponent t opts st =
     (let (cid, st1) = nextId st;
          component = \<lparr>comp_id = cid, comp_type = t, comp_color = opt_color opts,
                       comp_ports = [],
                       storageSlots = (if t = Storage then Some Map.empty else None),
                       comp_mode = opt_mode opts\<rparr>;
          (component', st2) = buildPorts (component, st1)
      in (component', st2\<lparr>components := components st2 @ [component']\<rparr>))"

section \<open>The connection resolver\<close>

definition getPort :: "state \<Rightarrow> portRef \<Rightarrow> port option" where
  "getPort st ref =
     (case find (\<lambda>c. comp_id c = componentId ref) (components st) of
        None \<Rightarrow> None
      | Some component \<Rightarrow> find (\<lambda>p. port_id p = portId ref) (comp_ports component))"

definition canAccept :: "state \<Rightarrow> portRef \<Rightarrow> bool" where
  "canAccept st toPortRef =
     (\<not> list_ex (\<lambda>conn. componentId (conn_to conn) = componentId toPortRef
                        \<and> portId (conn_to conn) = portId toPortRef) (connections st))"

definition canSend :: "state \<Rightarrow> portRef \<Rightarrow> port \<Rightarrow> bool" where
  "canSend st fromPortRef fromPort =
     (let sourceComponent = find (\<lambda>c. comp_id c = componentId fromPortRef) (components st);
          isAdderOutput = (case sourceComponent of None \<Rightarrow> False
                           | Some c \<Rightarrow> comp_type c = Adder \<and> port_role fromPort = Output);
          isGradientorOutput = (case sourceComponent of None \<Rightarrow> False
                           | Some c \<Rightarrow> comp_type c = Gradientor \<and> port_role fromPort = Output)
      in if isAdderOutput \<or> isGradientorOutput then True
         else \<not> list_ex (\<lambda>conn. componentId (conn_from conn) = componentId fromPortRef
                                \<and> portId (conn_from conn) = portId fromPortRef) (connections st))"

text \<open>The result \<open>{from, to}\<close> is the pair \<open>(from, to)\<close>; \<open>null\<close> is \<open>None\<close>.\<close>

definition resolveConnection :: "state \<Rightarrow> portRef \<Rightarrow> portRef \<Rightarrow> (portRef \<times> portRef) option" where
  "resolveConnection st firstRef secondRef =
     (case (getPort st firstRef, getPort st secondRef) of
        (Some firstPort, Some secondPort) \<Rightarrow>
          (let firstRole = port_role firstPort; secondRole = port_role secondPort in
           if firstRole = Output \<and> secondRole = Input then
             (if \<not> canAccept st secondRef \<or> \<not> canSend st firstRef firstPort then None
              else Some (firstRef, secondRef))
           else if firstRole = Input \<and> secondRole = Output then
             (if \<not> canAccept st firstRef \<or> \<not> canSend st secondRef secondPort then None
              else Some (secondRef, firstRef))
           else if firstRole = Output \<and> secondRole = Flex then
             (if \<not> canAccept st secondRef \<or> \<not> canSend st firstRef firstPort then None
              else Some (firstRef, secondRef))
           else if firstRole = Flex \<and> secondRole = Output then
             (if \<not> canAccept st firstRef \<or> \<not> canSend st secondRef secondPort then None
              else Some (secondRef, firstRef))
           else if firstRole = Input \<and> secondRole = Flex then
             (if \<not> canAccept st firstRef \<or> \<not> canSend st secondRef secondPort then None
              else Some (secondRef, firstRef))
           else if firstRole = Flex \<and> secondRole = Input then
             (if \<not> canAccept st secondRef \<or> \<not> canSend st firstRef firstPort then None
              else Some (firstRef, secondRef))
           else if firstRole = Flex \<and> secondRole = Flex then
             (if \<not> canAccept st secondRef \<or> \<not> canSend st firstRef firstPort then None
              else Some (firstRef, secondRef))
           else None)
      | _ \<Rightarrow> None)"

definition connectionExists :: "state \<Rightarrow> portRef \<Rightarrow> portRef \<Rightarrow> bool" where
  "connectionExists st fromRef toRef =
     list_ex (\<lambda>conn. componentId (conn_from conn) = componentId fromRef
                    \<and> portId (conn_from conn) = portId fromRef
                    \<and> componentId (conn_to conn) = componentId toRef
                    \<and> portId (conn_to conn) = portId toRef) (connections st)"

definition clearSelection :: "state \<Rightarrow> state" where
  "clearSelection st = st\<lparr>selectedPort := None\<rparr>"

section \<open>The propagation engine\<close>

definition findInbound :: "connection list \<Rightarrow> nat \<Rightarrow> nat \<Rightarrow> connection option" where
  "findInbound conns cid pid =
     find (\<lambda>conn. componentId (conn_to conn) = cid \<and> portId (conn_to conn) = pid) conns"

text \<open>\<open>inbound ? (portOutputs.get(portKey(inbound.from)) || null) : null\<close>\<close>

definition inboundColor :: "connection list \<Rightarrow> portOutputs \<Rightarrow> nat \<Rightarrow> nat \<Rightarrow> color option" where
  "inboundColor conns m cid pid =
     (case findInbound conns cid pid of
        None \<Rightarrow> None
      | Some inbound \<Rightarrow> getOutput m (portKey (conn_from inbound)))"

text \<open>The \<open>forEach\<close> loops that write one colour to each of a list of ports, raising
  \<open>changed\<close> whenever \<open>setPortOutput\<close> reports a write.\<close>

fun emitAll :: "nat \<Rightarrow> color option \<Rightarrow> port list \<Rightarrow> portOutputs \<times> bool \<Rightarrow> portOutputs \<times> bool" where
  "emitAll cid color [] mc = mc"
| "emitAll cid color (p # ps) (m, changed) =
     (let (m', wrote) = setPortOutput m (portKey \<lparr>componentId = cid, portId = port_id p\<rparr>) color
      in emitAll cid color ps (m', if wrote then True else changed))"

text \<open>\<open>component.storageSlots[port.id] || null\<close>\<close>

definition slotRead :: "(nat \<rightharpoonup> color option) \<Rightarrow> nat \<Rightarrow> color option" where
  "slotRead slots pid = (case slots pid of None \<Rightarrow> None | Some v \<Rightarrow> v)"

text \<open>The first loop over a storage component's ports: take in what arrives.\<close>

fun storeInbound :: "connection list \<Rightarrow> portOutputs \<Rightarrow> nat \<Rightarrow> port list
    \<Rightarrow> (nat \<rightharpoonup> color option) \<times> bool \<Rightarrow> (nat \<rightharpoonup> color option) \<times> bool" where
  "storeInbound conns m cid [] sc = sc"
| "storeInbound conns m cid (p # ps) (slots, changed) =
     (if port_role p \<noteq> Flex then storeInbound conns m cid ps (slots, changed)
      else (let inb = inboundColor conns m cid (port_id p);
                prev = slotRead slots (port_id p)
            in if \<not> colorsEqual prev inb
               then storeInbound conns m cid ps (slots(port_id p \<mapsto> inb), True)
               else storeInbound conns m cid ps (slots, changed)))"

text \<open>The second loop: every flex port emits what it holds.\<close>

fun emitStored :: "nat \<Rightarrow> (nat \<rightharpoonup> color option) \<Rightarrow> port list \<Rightarrow> portOutputs \<times> bool
    \<Rightarrow> portOutputs \<times> bool" where
  "emitStored cid slots [] mc = mc"
| "emitStored cid slots (p # ps) (m, changed) =
     (if port_role p \<noteq> Flex then emitStored cid slots ps (m, changed)
      else (let stored = slotRead slots (port_id p);
                (m', wrote) = setPortOutput m (portKey \<lparr>componentId = cid, portId = port_id p\<rparr>) stored
            in emitStored cid slots ps (m', if wrote then True else changed)))"

text \<open>The inputs of an adder that carry a colour, in port order
  (\<open>inputPorts.map(...).filter(Boolean)\<close>).\<close>

definition inputColors :: "connection list \<Rightarrow> portOutputs \<Rightarrow> component \<Rightarrow> color list" where
  "inputColors conns m component =
     List.map_filter (\<lambda>p. inboundColor conns m (comp_id component) (port_id p))
       (filter (\<lambda>p. port_role p = Input) (comp_ports component))"

definition adderOut :: "connection list \<Rightarrow> portOutputs \<Rightarrow> component \<Rightarrow> color option" where
  "adderOut conns m component =
     (let ics = inputColors conns m component
      in if length ics \<ge> 2 then Some (mixColors (ics ! 0) (ics ! 1)) else None)"

definition gradientorOut :: "connection list \<Rightarrow> portOutputs \<Rightarrow> component \<Rightarrow> color option" where
  "gradientorOut conns m component =
     (let inputPort = find (\<lambda>p. port_role p = Input) (comp_ports component);
          inb = (case inputPort of None \<Rightarrow> None
                 | Some ip \<Rightarrow> inboundColor conns m (comp_id component) (port_id ip))
      in adjustColor inb (if comp_mode component = Some Darken then Darken else Lighten))"

text \<open>\<open>component.storageSlots || {}\<close>\<close>

definition slotsOf :: "component \<Rightarrow> (nat \<rightharpoonup> color option)" where
  "slotsOf component = (case storageSlots component of None \<Rightarrow> Map.empty | Some s \<Rightarrow> s)"

text \<open>The body of \<open>components.forEach\<close> in \<open>computeColors\<close>: one component, the map and
  the flag so far.\<close>

definition processComponent :: "connection list \<Rightarrow> component \<Rightarrow> portOutputs \<times> bool
    \<Rightarrow> component \<times> portOutputs \<times> bool" where
  "processComponent conns component mc =
     (case comp_type component of
        Factory \<Rightarrow>
          (let outputs = filter (\<lambda>p. port_role p = Output) (comp_ports component)
           in (component, emitAll (comp_id component) (comp_color component) outputs mc))
      | Adder \<Rightarrow>
          (let outputPorts = filter (\<lambda>p. port_role p = Output) (comp_ports component);
               outColor = adderOut conns (fst mc) component
           in (component, emitAll (comp_id component) outColor outputPorts mc))
      | Gradientor \<Rightarrow>
          (let outputPort = find (\<lambda>p. port_role p = Output) (comp_ports component);
               adjusted = gradientorOut conns (fst mc) component
           in (case outputPort of
                 None \<Rightarrow> (component, mc)
               | Some op \<Rightarrow> (component, emitAll (comp_id component) adjusted [op] mc)))
      | Storage \<Rightarrow>
          (let slots0 = slotsOf component;
               (slots1, changed1) =
                  storeInbound conns (fst mc) (comp_id component) (comp_ports component) (slots0, snd mc);
               mc2 = emitStored (comp_id component) slots1 (comp_ports component) (fst mc, changed1)
           in (component\<lparr>storageSlots := Some slots1\<rparr>, mc2)))"

fun forEachComponent :: "connection list \<Rightarrow> component list \<Rightarrow> portOutputs \<times> bool
    \<Rightarrow> component list \<times> portOutputs \<times> bool" where
  "forEachComponent conns [] mc = ([], mc)"
| "forEachComponent conns (c # cs) mc =
     (let (c', mc') = processComponent conns c mc;
          (cs', mc'') = forEachComponent conns cs mc'
      in (c' # cs', mc''))"

text \<open>The \<open>while (changed && guard < 8)\<close> loop, returning the final values of
  \<open>changed\<close>, \<open>guard\<close>, \<open>portOutputs\<close> and the components.\<close>

function computeLoop :: "connection list \<Rightarrow> bool \<Rightarrow> nat \<Rightarrow> portOutputs \<Rightarrow> component list
    \<Rightarrow> bool \<times> nat \<times> portOutputs \<times> component list" where
  "computeLoop conns changed guard m comps =
     (if changed \<and> guard < 8
      then (case forEachComponent conns comps (m, False) of
              (comps', m', changed') \<Rightarrow> computeLoop conns changed' (guard + 1) m' comps')
      else (changed, guard, m, comps))"
  by pat_completeness auto
termination
  by (relation "measure (\<lambda>(conns, changed, guard, m, comps). 8 - guard)") auto

declare computeLoop.simps [simp del]

text \<open>\<open>computeColors\<close> starts the loop with an empty map, \<open>changed = true\<close> and
  \<open>guard = 0\<close>. What follows the loop (\<open>updatePortsWithColors\<close>,
  \<open>updateStorageWarnings\<close>) only paints the DOM. \<open>computeColors_run\<close> is the loop's
  outcome, \<open>computeColors\<close> its effect on the globals, \<open>portColors\<close> the map handed
  to the view.\<close>

definition computeColors_run :: "state \<Rightarrow> bool \<times> nat \<times> portOutputs \<times> component list" where
  "computeColors_run st = computeLoop (connections st) True 0 Map.empty (components st)"

definition computeColors :: "state \<Rightarrow> state" where
  "computeColors st = st\<lparr>components := snd (snd (snd (computeColors_run st)))\<rparr>"

definition portColors :: "state \<Rightarrow> portOutputs" where
  "portColors st = fst (snd (snd (computeColors_run st)))"

definition rounds :: "state \<Rightarrow> nat" where
  "rounds st = fst (snd (computeColors_run st))"

definition converged :: "state \<Rightarrow> bool" where
  "converged st = (\<not> fst (computeColors_run st))"

section \<open>User actions\<close>

definition handlePortClick :: "portRef \<Rightarrow> state \<Rightarrow> state" where
  "handlePortClick portRef st =
     (case selectedPort st of
        None \<Rightarrow> st\<lparr>selectedPort := Some portRef\<rparr>
      | Some sel \<Rightarrow>
          if componentId sel = componentId portRef then clearSelection st
          else (case resolveConnection st sel portRef of
                  None \<Rightarrow> clearSelection st
                | Some (from, to) \<Rightarrow>
                    if connectionExists st from to then clearSelection st
                    else (let (linkId, st1) = nextId st;
                              st2 = st1\<lparr>connections := connections st1 @
                                      [\<lparr>conn_id = linkId, conn_from = from, conn_to = to\<rparr>]\<rparr>
                          in computeColors (clearSelection st2))))"

text \<open>The interface operation \<open>tryConnect(portRefA, portRefB)\<close> is the click on B while A
  is selected.\<close>

definition tryConnect :: "portRef \<Rightarrow> portRef \<Rightarrow> state \<Rightarrow> state" where
  "tryConnect a b st = handlePortClick b (st\<lparr>selectedPort := Some a\<rparr>)"

fun findIndex :: "('a \<Rightarrow> bool) \<Rightarrow> 'a list \<Rightarrow> nat option" where
  "findIndex P [] = None"
| "findIndex P (x # xs) =
     (if P x then Some 0 else (case findIndex P xs of None \<Rightarrow> None | Some i \<Rightarrow> Some (Suc i)))"

definition deleteComponent :: "nat \<Rightarrow> state \<Rightarrow> state" where
  "deleteComponent cid st =
     (case findIndex (\<lambda>c. comp_id c = cid) (components st) of
        None \<Rightarrow> st
      | Some idx \<Rightarrow>
          (let st1 = (case selectedPort st of
                        None \<Rightarrow> st
                      | Some sel \<Rightarrow> if componentId sel = cid then clearSelection st else st);
               st2 = st1\<lparr>connections :=
                       filter (\<lambda>conn. componentId (conn_from conn) \<noteq> cid
                                     \<and> componentId (conn_to conn) \<noteq> cid) (connections st1)\<rparr>;
               st3 = st2\<lparr>components := take idx (components st2) @ drop (Suc idx) (components st2)\<rparr>
           in computeColors st3))"

definition resetGrid :: "state \<Rightarrow> state" where
  "resetGrid st = computeColors (st\<lparr>connections := [], components := []\<rparr>)"

text \<open>A toolbar button creates a component and recomputes.\<close>

definition handleToolbarClick :: "ctype \<Rightarrow> options \<Rightarrow> state \<Rightarrow> state" where
  "handleToolbarClick addType opts st = computeColors (snd (createComponent addType opts st))"

definition initialState :: state where
  "initialState = \<lparr>components = [], connections = [], selectedPort = None, idCounter = 1\<rparr>"

text \<open>The states the interface can reach: \<open>init\<close> resets the empty grid, and every
  operation of the interface, as well as the bare \<open>createComponent\<close>, leads on.\<close>

inductive reachable :: "state \<Rightarrow> bool" where
  r_init: "reachable (resetGrid initialState)"
| r_create: "reachable st \<Longrightarrow> reachable (snd (createComponent t opts st))"
| r_toolbar: "reachable st \<Longrightarrow> reachable (handleToolbarClick t opts st)"
| r_click: "reachable st \<Longrightarrow> reachable (handlePortClick ref st)"
| r_connect: "reachable st \<Longrightarrow> reachable (tryConnect a b st)"
| r_delete: "reachable st \<Longrightarrow> reachable (deleteComponent cid st)"
| r_reset: "reachable st \<Longrightarrow> reachable (resetGrid st)"
| r_recompute: "reachable st \<Longrightarrow> reachable (computeColors st)"

section \<open>The role table of the resolver\<close>

text \<open>
  \<open>resolveConnection\<close> decides the direction from the two roles alone and then applies
  its two capacity checks. \<open>orientation\<close> is that role table, read off the seven
  branches: \<open>Some True\<close> when the first port is the source, \<open>Some False\<close> when the
  second is, \<open>None\<close> when no branch applies. \<open>oriented\<close> is the pair
  \<open>(from, to)\<close> the branches would return before the checks. Lemma
  \<open>resolveConnection_oriented\<close> below shows that the resolver is exactly this table
  followed by \<open>canAccept\<close> and \<open>canSend\<close>.
\<close>

fun orientation :: "role \<Rightarrow> role \<Rightarrow> bool option" where
  "orientation Output Input = Some True"
| "orientation Input Output = Some False"
| "orientation Output Flex = Some True"
| "orientation Flex Output = Some False"
| "orientation Input Flex = Some False"
| "orientation Flex Input = Some True"
| "orientation Flex Flex = Some True"
| "orientation Output Output = None"
| "orientation Input Input = None"

definition oriented :: "state \<Rightarrow> portRef \<Rightarrow> portRef \<Rightarrow> (portRef \<times> portRef) option" where
  "oriented st firstRef secondRef =
     (case (getPort st firstRef, getPort st secondRef) of
        (Some firstPort, Some secondPort) \<Rightarrow>
          (case orientation (port_role firstPort) (port_role secondPort) of
             None \<Rightarrow> None
           | Some True \<Rightarrow> Some (firstRef, secondRef)
           | Some False \<Rightarrow> Some (secondRef, firstRef))
      | _ \<Rightarrow> None)"

section \<open>A sample grid\<close>

text \<open>
  The grid reached from the empty one by adding a red factory, an adder, a darkening
  gradientor, a storage container and a blue factory, then linking the factory's first
  output to the adder's input A and the adder's output to the gradientor's input (the
  second link by clicking the input first).
\<close>

definition mkRef :: "nat \<Rightarrow> nat \<Rightarrow> portRef" where
  "mkRef c p = \<lparr>componentId = c, portId = p\<rparr>"

definition sampleGrid :: state where
  "sampleGrid =
     tryConnect (mkRef 11 12) (mkRef 7 10)
      (tryConnect (mkRef 2 3) (mkRef 7 8)
        (handleToolbarClick Factory \<lparr>opt_color = Some (0, 0, 255), opt_mode = None\<rparr>
          (handleToolbarClick Storage \<lparr>opt_color = None, opt_mode = None\<rparr>
            (handleToolbarClick Gradientor \<lparr>opt_color = None, opt_mode = Some Darken\<rparr>
              (handleToolbarClick Adder \<lparr>opt_color = None, opt_mode = None\<rparr>
                (handleToolbarClick Factory \<lparr>opt_color = Some (255, 0, 0), opt_mode = None\<rparr>
                  (resetGrid initialState)))))))"

section \<open>The single-sink invariant\<close>

text \<open>No two connections end in the same port.\<close>

definition singleSink :: "state \<Rightarrow> bool" where
  "singleSink st = distinct (map conn_to (connections st))"

section \<open>Notions used in the proofs about the engine\<close>

text \<open>
  \<open>skeleton\<close> is a component without what it holds; \<open>sameHeld\<close> relates two
  components that differ at most in slots no flex port reads. \<open>emitted\<close> and
  \<open>outPorts\<close> name, for a component other than a storage container, the colour
  \<open>processComponent\<close> writes and the ports it writes it to.
\<close>

definition skeleton :: "component \<Rightarrow> component" where
  "skeleton c = c\<lparr>storageSlots := None\<rparr>"

definition sameHeld :: "component \<Rightarrow> component \<Rightarrow> bool" where
  "sameHeld c1 c2 =
     (skeleton c1 = skeleton c2
      \<and> (comp_type c1 = Storage \<longrightarrow>
           (\<forall>p\<in>set (comp_ports c1). port_role p = Flex \<longrightarrow>
               slotRead (slotsOf c1) (port_id p) = slotRead (slotsOf c2) (port_id p))))"

definition emitted :: "connection list \<Rightarrow> portOutputs \<Rightarrow> component \<Rightarrow> color option" where
  "emitted conns m c =
     (case comp_type c of
        Factory \<Rightarrow> comp_color c
      | Adder \<Rightarrow> adderOut conns m c
      | Gradientor \<Rightarrow> gradientorOut conns m c
      | Storage \<Rightarrow> None)"

definition outPorts :: "component \<Rightarrow> port list" where
  "outPorts c =
     (case comp_type c of
        Gradientor \<Rightarrow> (case find (\<lambda>p. port_role p = Output) (comp_ports c) of
                         None \<Rightarrow> [] | Some op \<Rightarrow> [op])
      | _ \<Rightarrow> filter (\<lambda>p. port_role p = Output) (comp_ports c))"

text \<open>The grid is stable under a map when every component other than a storage container
  already shows, at each port it writes, what it would emit.\<close>

text \<open>The grid is stable under a map when every component other than a storage container
  already shows, at each port it writes, what it would emit.\<close>

definition stable :: "connection list \<Rightarrow> portOutputs \<Rightarrow> component list \<Rightarrow> bool" where
  "stable conns m comps =
     (\<forall>c\<in>set comps. comp_type c \<noteq> Storage \<longrightarrow>
        (\<forall>p\<in>set (outPorts c). getOutput m (comp_id c, port_id p) = emitted conns m c))"

text \<open>A grid is cleared when no storage flex port without an incoming connection holds a
  colour.\<close>

definition cleared :: "connection list \<Rightarrow> component list \<Rightarrow> bool" where
  "cleared conns comps =
     (\<forall>c\<in>set comps. comp_type c = Storage \<longrightarrow>
        (\<forall>p\<in>set (comp_ports c). port_role p = Flex \<longrightarrow>
            findInbound conns (comp_id c) (port_id p) = None \<longrightarrow>
            slotRead (slotsOf c) (port_id p) = None))"

section \<open>More sample grids\<close>

text \<open>\<open>component.type === 'storage' && component.storageSlots
  ? (component.storageSlots[port.id] || null) : null\<close>, the colour a port is shown to hold
  (\<open>updatePortsWithColors\<close>).\<close>

definition storedColor :: "component \<Rightarrow> nat \<Rightarrow> color option" where
  "storedColor component pid =
     (if comp_type component = Storage
      then (case storageSlots component of None \<Rightarrow> None | Some slots \<Rightarrow> slotRead slots pid)
      else None)"

text \<open>
  \<open>storedGrid\<close>: a red factory and a storage container, the factory's first output
  linked to the container's first flex port, which then holds red. \<open>unplugged\<close> is
  that grid with the factory and its link taken out, as \<open>deleteComponent\<close> leaves it
  just before it calls \<open>computeColors\<close> (lemma \<open>unplugged_delete\<close>).
\<close>

definition noOptions :: options where
  "noOptions = \<lparr>opt_color = None, opt_mode = None\<rparr>"

definition storedGrid :: state where
  "storedGrid =
     tryConnect (mkRef 2 3) (mkRef 7 8)
       (handleToolbarClick Storage noOptions
         (handleToolbarClick Factory \<lparr>opt_color = Some (255, 0, 0), opt_mode = None\<rparr>
           (resetGrid initialState)))"

definition unplugged :: state where
  "unplugged =
     storedGrid\<lparr>connections :=
                  filter (\<lambda>conn. componentId (conn_from conn) \<noteq> 2 \<and> componentId (conn_to conn) \<noteq> 2)
                    (connections storedGrid),
                components := take 0 (components storedGrid) @ drop (Suc 0) (components storedGrid)\<rparr>"

text \<open>
  \<open>holdingStore\<close>: a storage container that holds red at port 8 and blue at port 9.
\<close>

definition holdingStore :: component where
  "holdingStore =
     \<lparr>comp_id = 7, comp_type = Storage, comp_color = None,
      comp_ports = map (\<lambda>n. \<lparr>port_id = n, port_role = Flex\<rparr>) [8, 9, 10, 11, 12, 13],
      storageSlots = Some [8 \<mapsto> Some (255, 0, 0), 9 \<mapsto> Some (0, 0, 255)],
      comp_mode = None\<rparr>"

text \<open>
  \<open>laggingGrid\<close>: an adder (id 2), seven brightening gradientors (ids 6 to 24) and a red
  factory (id 27), created in this order and linked against it: factory to gradientor 24,
  each gradientor to the one created before it, gradientor 6 to both inputs of the
  adder. \<open>laggingOps\<close> is the sequence of toolbar clicks and connections that builds
  it (lemma \<open>laggingOps_eq\<close>).
\<close>

definition brightener :: options where
  "brightener = \<lparr>opt_color = None, opt_mode = Some Lighten\<rparr>"

definition laggingParts :: state where
  "laggingParts =
     handleToolbarClick Factory \<lparr>opt_color = Some (255, 0, 0), opt_mode = None\<rparr>
      ((handleToolbarClick Gradientor brightener ^^ 7)
        (handleToolbarClick Adder noOptions (resetGrid initialState)))"

definition laggingOps :: state where
  "laggingOps =
     tryConnect (mkRef 6 8) (mkRef 2 4)
      (tryConnect (mkRef 6 8) (mkRef 2 3)
        (tryConnect (mkRef 9 11) (mkRef 6 7)
          (tryConnect (mkRef 12 14) (mkRef 9 10)
            (tryConnect (mkRef 15 17) (mkRef 12 13)
              (tryConnect (mkRef 18 20) (mkRef 15 16)
                (tryConnect (mkRef 21 23) (mkRef 18 19)
                  (tryConnect (mkRef 24 26) (mkRef 21 22)
                    (tryConnect (mkRef 27 28) (mkRef 24 25) laggingParts))))))))"

definition gradientor :: "nat \<Rightarrow> component" where
  "gradientor n = \<lparr>comp_id = n, comp_type = Gradientor, comp_color = None,
       comp_ports = [\<lparr>port_id = n + 1, port_role = Input\<rparr>, \<lparr>port_id = n + 2, port_role = Output\<rparr>],
       storageSlots = None, comp_mode = Some Lighten\<rparr>"

definition link :: "nat \<Rightarrow> nat \<times> nat \<Rightarrow> nat \<times> nat \<Rightarrow> connection" where
  "link n f t = \<lparr>conn_id = n, conn_from = mkRef (fst f) (snd f), conn_to = mkRef (fst t) (snd t)\<rparr>"

definition laggingGrid :: state where
  "laggingGrid =
     \<lparr>components =
        [\<lparr>comp_id = 2, comp_type = Adder, comp_color = None,
          comp_ports = [\<lparr>port_id = 3, port_role = Input\<rparr>, \<lparr>port_id = 4, port_role = Input\<rparr>,
                        \<lparr>port_id = 5, port_role = Output\<rparr>],
          storageSlots = None, comp_mode = None\<rparr>,
         gradientor 6, gradientor 9, gradientor 12, gradientor 15, gradientor 18, gradientor 21,
         gradientor 24,
         \<lparr>comp_id = 27, comp_type = Factory, comp_color = Some (255, 0, 0),
          comp_ports = [\<lparr>port_id = 28, port_role = Output\<rparr>, \<lparr>port_id = 29, port_role = Output\<rparr>,
                        \<lparr>port_id = 30, port_role = Output\<rparr>, \<lparr>port_id = 31, port_role = Output\<rparr>],
          storageSlots = None, comp_mode = None\<rparr>],
      connections =
        [link 32 (27, 28) (24, 25), link 33 (24, 26) (21, 22), link 34 (21, 23) (18, 19),
         link 35 (18, 20) (15, 16), link 36 (15, 17) (12, 13), link 37 (12, 14) (9, 10),
         link 38 (9, 11) (6, 7), link 39 (6, 8) (2, 3), link 40 (6, 8) (2, 4)],
      selectedPort = None,
      idCounter = 40\<rparr>"

text \<open>A red factory feeding both inputs of an adder.\<close>

definition adderGrid :: state where
  "adderGrid =
     tryConnect (mkRef 2 4) (mkRef 7 9)
      (tryConnect (mkRef 2 3) (mkRef 7 8)
        (handleToolbarClick Adder noOptions
          (handleToolbarClick Factory \<lparr>opt_color = Some (255, 0, 0), opt_mode = None\<rparr>
            (resetGrid initialState))))"

section \<open>Colour mixing: properties\<close>

lemma channel_0 [simp]: "channel (r, g, b) 0 = r"
  and channel_1 [simp]: "channel (r, g, b) (Suc 0) = g"
  and channel_1' [simp]: "channel (r, g, b) 1 = g"
  and channel_2 [simp]: "channel (r, g, b) 2 = b"
  by simp_all

lemma mix_red: "mixColors (255, 0, 0) (255, 0, 0) = (255, 0, 0)"
  by code_simp
lemma mix_yellow: "mixColors (255, 255, 0) (255, 255, 0) = (255, 255, 0)"
  by code_simp
lemma mix_blue: "mixColors (0, 0, 255) (0, 0, 255) = (0, 0, 255)"
  by code_simp
lemma mix_green: "mixColors (0, 255, 0) (0, 255, 0) = (0, 255, 0)"
  by code_simp

lemma mix_black: "mixColors (0, 0, 0) (0, 0, 0) = (255, 255, 255)"
  by code_simp

text \<open>
  Claim C8: mixing a colour with itself returns that colour. The code does so for the
  pure colours above and aims at it throughout (its test asks that mixing the same
  colour return approximately the same colour), but it fails outright on white:
  \<open>rgbToRyb\<close> takes the whiteness out and adds it back to every RYB channel, so RGB
  white becomes the RYB triple (255, 255, 255), the corner that the table of
  \<open>rybToRgb\<close> labels black, while the corner it labels white is (0, 0, 0). White mixed
  with white is black. The evaluation passes through integers and the weight 1 only, so
  doubles give the same.
\<close>

theorem mixColors_white_white_black:
  "rgbToRyb (255, 255, 255) = (255, 255, 255)
   \<and> rybToRgb (255, 255, 255) = (0, 0, 0)
   \<and> mixColors (255, 255, 255) (255, 255, 255) = (0, 0, 0)
   \<and> mixColors (255, 255, 255) (255, 255, 255) \<noteq> (255, 255, 255)"
  by code_simp

text \<open>
  Claim C10: \<open>mixColors\<close> is commutative, for all colours: both orders average the same
  two RYB triples channel by channel.
\<close>

theorem mixColors_commute: "mixColors a b = mixColors b a"
  unfolding mixColors_def Let_def by (simp only: add.commute)

section \<open>The round cap\<close>

lemma computeLoop_step:
  "changed \<Longrightarrow> guard < 8 \<Longrightarrow> forEachComponent conns comps (m, False) = (comps', m', changed')
   \<Longrightarrow> computeLoop conns changed guard m comps = computeLoop conns changed' (guard + 1) m' comps'"
  by (subst computeLoop.simps) simp

lemma computeLoop_stop:
  assumes "\<not> (changed \<and> guard < 8)"
  shows "computeLoop conns changed guard m comps = (changed, guard, m, comps)"
  by (subst computeLoop.simps) (simp only: assms if_False)

lemma computeLoop_guard:
  "guard \<le> 8 \<Longrightarrow> fst (snd (computeLoop conns changed guard m comps)) \<le> 8"
proof (induction conns changed guard m comps rule: computeLoop.induct)
  case (1 conns changed guard m comps)
  show ?case
  proof (cases "changed \<and> guard < 8")
    case True
    obtain comps' m' changed' where fe: "forEachComponent conns comps (m, False) = (comps', m', changed')"
      by (cases "forEachComponent conns comps (m, False)") 
    from True have "guard + 1 \<le> 8" by simp
    with "1.IH" [OF True fe [symmetric]] fe True show ?thesis
      by (simp add: computeLoop_step)
  next
    case False
    with "1.prems" show ?thesis by (simp add: computeLoop_stop)
  qed
qed

lemma computeLoop_guard_mono:
  "guard \<le> fst (snd (computeLoop conns changed guard m comps))"
proof (induction conns changed guard m comps rule: computeLoop.induct)
  case (1 conns changed guard m comps)
  show ?case
  proof (cases "changed \<and> guard < 8")
    case True
    obtain comps' m' changed' where fe: "forEachComponent conns comps (m, False) = (comps', m', changed')"
      by (cases "forEachComponent conns comps (m, False)") 
    with "1.IH" [OF True fe [symmetric]] fe True show ?thesis
      by (simp add: computeLoop_step)
  next
    case False
    then show ?thesis by (simp add: computeLoop_stop)
  qed
qed

text \<open>
  Claim C7: for every state whatsoever (cycles, missing inputs, unconnected ports),
  \<open>computeColors\<close> returns after at least one and at most eight rounds. The loop is a
  total function, by the termination proof of \<open>computeLoop\<close>, and no branch of the
  engine can raise: every lookup that may miss yields \<open>null\<close>.
\<close>

theorem computeColors_terminates_within_8:
  "1 \<le> rounds st \<and> rounds st \<le> 8"
proof -
  obtain comps' m' changed' where
    fe: "forEachComponent (connections st) (components st) (Map.empty, False) = (comps', m', changed')"
    by (cases "forEachComponent (connections st) (components st) (Map.empty, False)")
  have "computeColors_run st = computeLoop (connections st) changed' 1 m' comps'"
    using computeLoop_step [OF _ _ fe, of True 0] by (simp add: computeColors_run_def)
  then show ?thesis
    using computeLoop_guard [of 1 "connections st" changed' m' comps']
      computeLoop_guard_mono [of 1 "connections st" changed' m' comps']
    by (simp add: rounds_def)
qed

section \<open>The connection resolver: properties\<close>

lemma computeColors_fields [simp]:
  "connections (computeColors st) = connections st"
  "selectedPort (computeColors st) = selectedPort st"
  "idCounter (computeColors st) = idCounter st"
  by (simp_all add: computeColors_def)

lemma getPort_selectedPort [simp]: "getPort (st\<lparr>selectedPort := x\<rparr>) ref = getPort st ref"
  by (simp add: getPort_def)

lemma canAccept_selectedPort [simp]: "canAccept (st\<lparr>selectedPort := x\<rparr>) ref = canAccept st ref"
  by (simp add: canAccept_def)

lemma canSend_selectedPort [simp]: "canSend (st\<lparr>selectedPort := x\<rparr>) ref p = canSend st ref p"
  by (simp add: canSend_def)

lemma connectionExists_selectedPort [simp]:
  "connectionExists (st\<lparr>selectedPort := x\<rparr>) f t = connectionExists st f t"
  by (simp add: connectionExists_def)

lemma resolveConnection_selectedPort [simp]:
  "resolveConnection (st\<lparr>selectedPort := x\<rparr>) a b = resolveConnection st a b"
  unfolding resolveConnection_def getPort_selectedPort canAccept_selectedPort canSend_selectedPort
  by (rule refl)

lemma resolveConnection_oriented:
  "resolveConnection st a b =
     (case oriented st a b of
        None \<Rightarrow> None
      | Some (f, t) \<Rightarrow>
          (case getPort st f of
             None \<Rightarrow> None
           | Some pf \<Rightarrow> if canAccept st t \<and> canSend st f pf then Some (f, t) else None))"
proof (cases "getPort st a")
  case None
  then show ?thesis by (simp add: resolveConnection_def oriented_def)
next
  case (Some pa)
  note pa = this
  show ?thesis
  proof (cases "getPort st b")
    case None
    with pa show ?thesis by (simp add: resolveConnection_def oriented_def)
  next
    case (Some pb)
    with pa show ?thesis
      by (cases "port_role pa"; cases "port_role pb")
         (simp_all add: resolveConnection_def oriented_def)
  qed
qed

text \<open>What a click on \<open>b\<close> with \<open>a\<close> selected does, in one equation.\<close>

lemma tryConnect_eq:
  "tryConnect a b st =
     (if componentId a = componentId b then st\<lparr>selectedPort := None\<rparr>
      else (case resolveConnection st a b of
              None \<Rightarrow> st\<lparr>selectedPort := None\<rparr>
            | Some (f, t) \<Rightarrow>
                if connectionExists st f t then st\<lparr>selectedPort := None\<rparr>
                else computeColors
                       (st\<lparr>idCounter := idCounter st + 1,
                           connections := connections st @
                             [\<lparr>conn_id = idCounter st + 1, conn_from = f, conn_to = t\<rparr>],
                           selectedPort := None\<rparr>)))"
  by (simp add: tryConnect_def handlePortClick_def clearSelection_def nextId_def Let_def
           split: option.splits prod.splits)

lemma portRef_eq: "(r = s) = (componentId r = componentId s \<and> portId r = portId s)"
  for r s :: portRef
  by (cases r; cases s) simp

lemma canAccept_iff: "canAccept st t = (\<forall>conn\<in>set (connections st). conn_to conn \<noteq> t)"
  by (auto simp: canAccept_def list_ex_iff portRef_eq)

lemma connectionExists_iff:
  "connectionExists st f t = (\<exists>conn\<in>set (connections st). conn_from conn = f \<and> conn_to conn = t)"
  by (auto simp: connectionExists_def list_ex_iff portRef_eq)

lemma canSend_iff:
  "canSend st f pf =
     ((\<exists>c. find (\<lambda>c. comp_id c = componentId f) (components st) = Some c
           \<and> (comp_type c = Adder \<or> comp_type c = Gradientor) \<and> port_role pf = Output)
      \<or> (\<forall>conn\<in>set (connections st). conn_from conn \<noteq> f))"
  by (cases "find (\<lambda>c. comp_id c = componentId f) (components st)")
     (auto simp: canSend_def Let_def list_ex_iff portRef_eq)

lemma oriented_ports:
  assumes "oriented st a b = Some (f, t)"
  shows "\<exists>pf. getPort st f = Some pf"
  using assms by (auto simp: oriented_def split: option.splits bool.splits)

text \<open>
  Claim C4: \<open>tryConnect\<close> rejects Output with Output, Input with Input, two ports of one
  component, a pair whose oriented destination already has an incoming connection, and
  a pair whose oriented connection already exists. Rejecting is: the grid is left as it
  was, with nothing selected; no link is added, no identifier is drawn, nothing is
  recomputed, and no branch raises.
\<close>

theorem tryConnect_rejects:
  assumes "(\<exists>pa pb. getPort st a = Some pa \<and> getPort st b = Some pb
                 \<and> port_role pa = Output \<and> port_role pb = Output)
         \<or> (\<exists>pa pb. getPort st a = Some pa \<and> getPort st b = Some pb
                 \<and> port_role pa = Input \<and> port_role pb = Input)
         \<or> componentId a = componentId b
         \<or> (\<exists>f t. oriented st a b = Some (f, t)
                 \<and> (\<exists>conn\<in>set (connections st). conn_to conn = t))
         \<or> (\<exists>f t. oriented st a b = Some (f, t)
                 \<and> (\<exists>conn\<in>set (connections st). conn_from conn = f \<and> conn_to conn = t))"
  shows "tryConnect a b st = st\<lparr>selectedPort := None\<rparr>"
proof -
  consider (same) "componentId a = componentId b"
    | (roles) "oriented st a b = None"
    | (fed) f t where "oriented st a b = Some (f, t)" "\<not> canAccept st t"
    using assms by (auto simp: oriented_def canAccept_iff)
  then show ?thesis
  proof cases
    case same
    then show ?thesis by (simp add: tryConnect_eq)
  next
    case roles
    then show ?thesis by (simp add: tryConnect_eq resolveConnection_oriented)
  next
    case fed
    then show ?thesis
      by (simp add: tryConnect_eq resolveConnection_oriented split: option.splits)
  qed
qed

text \<open>
  Claim C5: for a legal pair on two components whose destination is free, an Output port
  of an adder or a gradientor is accepted as source however many links it already
  feeds, while a port of a factory or of a storage container that already feeds a link
  is rejected as source.
\<close>

theorem tryConnect_fan_out:
  assumes "componentId a \<noteq> componentId b"
    and "oriented st a b = Some (f, t)"
    and "getPort st f = Some pf"
    and "find (\<lambda>c. comp_id c = componentId f) (components st) = Some c"
    and "\<forall>conn\<in>set (connections st). conn_to conn \<noteq> t"
  shows "((comp_type c = Adder \<or> comp_type c = Gradientor) \<and> port_role pf = Output
            \<longrightarrow> connections (tryConnect a b st)
                  = connections st @ [\<lparr>conn_id = idCounter st + 1, conn_from = f, conn_to = t\<rparr>])
       \<and> ((comp_type c = Factory \<or> comp_type c = Storage)
            \<and> (\<exists>conn\<in>set (connections st). conn_from conn = f)
            \<longrightarrow> tryConnect a b st = st\<lparr>selectedPort := None\<rparr>)"
proof -
  have acc: "canAccept st t" and nex: "\<not> connectionExists st f t"
    using assms(5) by (auto simp: canAccept_iff connectionExists_iff)
  show ?thesis
    using assms(1-4) acc nex
    by (auto simp: tryConnect_eq resolveConnection_oriented canSend_iff)
qed

text \<open>
  Claim C6: whenever \<open>tryConnect\<close> accepts (the list of connections changes), exactly
  one link is appended, and it is directed by role whatever the order of selection:
  Output to Input, Output to Flex, Flex to Input, and between two Flex ports from the
  first selected to the second.
\<close>

theorem tryConnect_orientation:
  assumes "connections (tryConnect a b st) \<noteq> connections st"
  shows "\<exists>pa pb f t. getPort st a = Some pa \<and> getPort st b = Some pb
      \<and> connections (tryConnect a b st)
          = connections st @ [\<lparr>conn_id = idCounter st + 1, conn_from = f, conn_to = t\<rparr>]
      \<and> (case (port_role pa, port_role pb) of
            (Output, Input) \<Rightarrow> f = a \<and> t = b
          | (Input, Output) \<Rightarrow> f = b \<and> t = a
          | (Output, Flex) \<Rightarrow> f = a \<and> t = b
          | (Flex, Output) \<Rightarrow> f = b \<and> t = a
          | (Input, Flex) \<Rightarrow> f = b \<and> t = a
          | (Flex, Input) \<Rightarrow> f = a \<and> t = b
          | (Flex, Flex) \<Rightarrow> f = a \<and> t = b
          | _ \<Rightarrow> False)"
proof -
  from assms obtain f t where res: "resolveConnection st a b = Some (f, t)"
    and new: "connections (tryConnect a b st)
          = connections st @ [\<lparr>conn_id = idCounter st + 1, conn_from = f, conn_to = t\<rparr>]"
    by (auto simp: tryConnect_eq split: if_splits option.splits)
  from res obtain pa pb where pa: "getPort st a = Some pa" and pb: "getPort st b = Some pb"
    by (auto simp: resolveConnection_def split: option.splits)
  from res pa pb have "(case (port_role pa, port_role pb) of
            (Output, Input) \<Rightarrow> f = a \<and> t = b
          | (Input, Output) \<Rightarrow> f = b \<and> t = a
          | (Output, Flex) \<Rightarrow> f = a \<and> t = b
          | (Flex, Output) \<Rightarrow> f = b \<and> t = a
          | (Input, Flex) \<Rightarrow> f = b \<and> t = a
          | (Flex, Input) \<Rightarrow> f = a \<and> t = b
          | (Flex, Flex) \<Rightarrow> f = a \<and> t = b
          | _ \<Rightarrow> False)"
    by (cases "port_role pa"; cases "port_role pb")
       (simp_all add: resolveConnection_def split: if_splits)
  with pa pb new show ?thesis by blast
qed

lemma sampleGrid_connections:
  "connections sampleGrid =
     [\<lparr>conn_id = 26, conn_from = mkRef 2 3, conn_to = mkRef 7 8\<rparr>,
      \<lparr>conn_id = 27, conn_from = mkRef 7 10, conn_to = mkRef 11 12\<rparr>]"
  by code_simp

lemma sampleGrid_idCounter: "idCounter sampleGrid = 27"
  by code_simp

lemma sampleGrid_getPort:
  "getPort sampleGrid (mkRef 2 3) = Some \<lparr>port_id = 3, port_role = Output\<rparr>"
  "getPort sampleGrid (mkRef 2 4) = Some \<lparr>port_id = 4, port_role = Output\<rparr>"
  "getPort sampleGrid (mkRef 21 22) = Some \<lparr>port_id = 22, port_role = Output\<rparr>"
  "getPort sampleGrid (mkRef 7 8) = Some \<lparr>port_id = 8, port_role = Input\<rparr>"
  "getPort sampleGrid (mkRef 7 9) = Some \<lparr>port_id = 9, port_role = Input\<rparr>"
  "getPort sampleGrid (mkRef 7 10) = Some \<lparr>port_id = 10, port_role = Output\<rparr>"
  "getPort sampleGrid (mkRef 14 15) = Some \<lparr>port_id = 15, port_role = Flex\<rparr>"
  by code_simp+

lemma sampleGrid_types:
  "(case find (\<lambda>c. comp_id c = 7) (components sampleGrid) of None \<Rightarrow> False | Some c \<Rightarrow> comp_type c = Adder)"
  "(case find (\<lambda>c. comp_id c = 2) (components sampleGrid) of None \<Rightarrow> False | Some c \<Rightarrow> comp_type c = Factory)"
  by code_simp+

theorem tryConnect_rejects_witness:
  "tryConnect (mkRef 2 4) (mkRef 21 22) sampleGrid = sampleGrid\<lparr>selectedPort := None\<rparr>
   \<and> tryConnect (mkRef 7 8) (mkRef 7 10) sampleGrid = sampleGrid\<lparr>selectedPort := None\<rparr>
   \<and> tryConnect (mkRef 21 22) (mkRef 7 8) sampleGrid = sampleGrid\<lparr>selectedPort := None\<rparr>
   \<and> tryConnect (mkRef 7 8) (mkRef 2 3) sampleGrid = sampleGrid\<lparr>selectedPort := None\<rparr>"
proof -
  have 1: "tryConnect (mkRef 2 4) (mkRef 21 22) sampleGrid = sampleGrid\<lparr>selectedPort := None\<rparr>"
    by (rule tryConnect_rejects) (simp add: sampleGrid_getPort)
  have 2: "tryConnect (mkRef 7 8) (mkRef 7 10) sampleGrid = sampleGrid\<lparr>selectedPort := None\<rparr>"
    by (rule tryConnect_rejects) (simp add: mkRef_def)
  have o3: "oriented sampleGrid (mkRef 21 22) (mkRef 7 8) = Some (mkRef 21 22, mkRef 7 8)"
    by (simp add: oriented_def sampleGrid_getPort)
  have 3: "tryConnect (mkRef 21 22) (mkRef 7 8) sampleGrid = sampleGrid\<lparr>selectedPort := None\<rparr>"
    by (rule tryConnect_rejects) (simp add: o3 sampleGrid_connections)
  have o4: "oriented sampleGrid (mkRef 7 8) (mkRef 2 3) = Some (mkRef 2 3, mkRef 7 8)"
    by (simp add: oriented_def sampleGrid_getPort)
  have 4: "tryConnect (mkRef 7 8) (mkRef 2 3) sampleGrid = sampleGrid\<lparr>selectedPort := None\<rparr>"
    by (rule tryConnect_rejects) (simp add: o4 sampleGrid_connections)
  from 1 2 3 4 show ?thesis by simp
qed

lemma mkRef_simps [simp]: "componentId (mkRef c p) = c" "portId (mkRef c p) = p"
  by (simp_all add: mkRef_def)

lemma mkRef_eq [simp]: "(mkRef c p = mkRef c' p') = (c = c' \<and> p = p')"
  by (simp add: mkRef_def)

theorem tryConnect_fan_out_witness:
  "connections (tryConnect (mkRef 7 10) (mkRef 14 15) sampleGrid)
     = [\<lparr>conn_id = 26, conn_from = mkRef 2 3, conn_to = mkRef 7 8\<rparr>,
        \<lparr>conn_id = 27, conn_from = mkRef 7 10, conn_to = mkRef 11 12\<rparr>,
        \<lparr>conn_id = 28, conn_from = mkRef 7 10, conn_to = mkRef 14 15\<rparr>]
   \<and> tryConnect (mkRef 2 3) (mkRef 7 9) sampleGrid = sampleGrid\<lparr>selectedPort := None\<rparr>"
proof -
  obtain c where c: "find (\<lambda>c. comp_id c = componentId (mkRef 7 10)) (components sampleGrid) = Some c"
      "comp_type c = Adder"
    using sampleGrid_types(1) by (auto split: option.splits)
  have o1: "oriented sampleGrid (mkRef 7 10) (mkRef 14 15) = Some (mkRef 7 10, mkRef 14 15)"
    by (simp add: oriented_def sampleGrid_getPort)
  have free1: "\<forall>conn\<in>set (connections sampleGrid). conn_to conn \<noteq> mkRef 14 15"
    by (simp add: sampleGrid_connections)
  have ne1: "componentId (mkRef 7 10) \<noteq> componentId (mkRef 14 15)" by simp
  note A = tryConnect_fan_out [OF ne1 o1 sampleGrid_getPort(6) c(1) free1]
  obtain d where d: "find (\<lambda>c. comp_id c = componentId (mkRef 2 3)) (components sampleGrid) = Some d"
      "comp_type d = Factory"
    using sampleGrid_types(2) by (auto split: option.splits)
  have o2: "oriented sampleGrid (mkRef 2 3) (mkRef 7 9) = Some (mkRef 2 3, mkRef 7 9)"
    by (simp add: oriented_def sampleGrid_getPort)
  have free2: "\<forall>conn\<in>set (connections sampleGrid). conn_to conn \<noteq> mkRef 7 9"
    by (simp add: sampleGrid_connections)
  have ne2: "componentId (mkRef 2 3) \<noteq> componentId (mkRef 7 9)" by simp
  note B = tryConnect_fan_out [OF ne2 o2 sampleGrid_getPort(1) d(1) free2]
  from A c(2) have "connections (tryConnect (mkRef 7 10) (mkRef 14 15) sampleGrid)
     = connections sampleGrid @ [\<lparr>conn_id = idCounter sampleGrid + 1, conn_from = mkRef 7 10, conn_to = mkRef 14 15\<rparr>]"
    by simp
  moreover from B d(2) have "tryConnect (mkRef 2 3) (mkRef 7 9) sampleGrid = sampleGrid\<lparr>selectedPort := None\<rparr>"
    by (simp add: sampleGrid_connections)
  ultimately show ?thesis by (simp add: sampleGrid_connections sampleGrid_idCounter)
qed

theorem tryConnect_orientation_witness:
  "connections (tryConnect (mkRef 7 9) (mkRef 14 15) sampleGrid)
     = connections sampleGrid @ [\<lparr>conn_id = 28, conn_from = mkRef 14 15, conn_to = mkRef 7 9\<rparr>]"
proof -
  have "connections (tryConnect (mkRef 7 9) (mkRef 14 15) sampleGrid) \<noteq> connections sampleGrid"
    by code_simp
  from tryConnect_orientation [OF this] show ?thesis
    by (auto simp: sampleGrid_getPort sampleGrid_idCounter)
qed

section \<open>The single-sink invariant: proof\<close>

lemma nextId_connections [simp]: "connections (snd (nextId st)) = connections st"
  by (simp add: nextId_def Let_def)

lemma addPort_connections [simp]: "connections (snd (addPort r cs)) = connections (snd cs)"
  by (simp add: addPort_def nextId_def Let_def split_def)

lemma addPort_funpow_connections [simp]:
  "connections (snd ((addPort r ^^ n) cs)) = connections (snd cs)"
  by (induction n) simp_all

lemma buildPorts_connections [simp]: "connections (snd (buildPorts cs)) = connections (snd cs)"
  by (simp add: buildPorts_def split: ctype.splits)

lemma createComponent_connections [simp]:
  "connections (snd (createComponent t opts st)) = connections st"
  by (simp add: createComponent_def Let_def split_def)

lemma tryConnect_connections:
  "connections (tryConnect a b st) = connections st
   \<or> (\<exists>l f t. canAccept st t
          \<and> connections (tryConnect a b st)
              = connections st @ [\<lparr>conn_id = l, conn_from = f, conn_to = t\<rparr>])"
  by (auto simp: tryConnect_eq resolveConnection_oriented split: option.splits if_splits)

lemma handlePortClick_tryConnect:
  assumes "selectedPort st = Some sel"
  shows "handlePortClick ref st = tryConnect sel ref st"
proof -
  have "st\<lparr>selectedPort := Some sel\<rparr> = st" using assms by (cases st) simp
  then show ?thesis by (simp add: tryConnect_def)
qed

lemma singleSink_tryConnect: "singleSink st \<Longrightarrow> singleSink (tryConnect a b st)"
  using tryConnect_connections [of a b st]
  by (auto simp: singleSink_def canAccept_iff)

lemma singleSink_handlePortClick: "singleSink st \<Longrightarrow> singleSink (handlePortClick ref st)"
proof (cases "selectedPort st")
  case None
  assume "singleSink st"
  with None show ?thesis by (simp add: handlePortClick_def singleSink_def)
next
  case (Some sel)
  assume "singleSink st"
  then show ?thesis
    by (simp add: handlePortClick_tryConnect [OF Some] singleSink_tryConnect)
qed

lemma singleSink_deleteComponent: "singleSink st \<Longrightarrow> singleSink (deleteComponent cid st)"
  by (auto simp: deleteComponent_def singleSink_def clearSelection_def Let_def distinct_map_filter
           split: option.splits)

lemma reachable_singleSink: "reachable st \<Longrightarrow> singleSink st"
proof (induction rule: reachable.induct)
  case r_init
  show ?case by (simp add: singleSink_def resetGrid_def)
next
  case (r_create st t opts)
  then show ?case by (simp add: singleSink_def)
next
  case (r_toolbar st t opts)
  then show ?case by (simp add: singleSink_def handleToolbarClick_def)
next
  case (r_click st ref)
  then show ?case by (simp add: singleSink_handlePortClick)
next
  case (r_connect st a b)
  then show ?case by (simp add: singleSink_tryConnect)
next
  case (r_delete st cid)
  then show ?case by (simp add: singleSink_deleteComponent)
next
  case (r_reset st)
  show ?case by (simp add: singleSink_def resetGrid_def)
next
  case (r_recompute st)
  then show ?case by (simp add: singleSink_def)
qed

lemma distinct_map_filter_le1:
  "distinct (map f xs) \<Longrightarrow> length (filter (\<lambda>x. f x = y) xs) \<le> 1"
proof (induction xs)
  case Nil
  show ?case by simp
next
  case (Cons x xs)
  show ?case
  proof (cases "f x = y")
    case True
    from Cons.prems have "f x \<notin> f ` set xs" by simp
    with True have "\<forall>z\<in>set xs. f z \<noteq> y" by blast
    then have "filter (\<lambda>x. f x = y) xs = []" by (simp add: filter_empty_conv)
    with True show ?thesis by simp
  next
    case False
    with Cons show ?thesis by simp
  qed
qed

text \<open>
  Claim C2: in every state reachable by any sequence of \<open>createComponent\<close>, toolbar
  clicks, port clicks, \<open>tryConnect\<close>, \<open>deleteComponent\<close>, \<open>resetGrid\<close> and
  \<open>computeColors\<close>, every port is the destination of at most one connection.
\<close>

theorem reachable_single_source_per_sink:
  assumes "reachable st"
  shows "length (filter (\<lambda>conn. conn_to conn = ref) (connections st)) \<le> 1"
  using reachable_singleSink [OF assms] unfolding singleSink_def
  by (rule distinct_map_filter_le1)

lemma reachable_sampleGrid: "reachable sampleGrid"
  unfolding sampleGrid_def by (intro reachable.intros)

theorem reachable_single_source_per_sink_witness:
  "length (filter (\<lambda>conn. conn_to conn = mkRef 7 8)
             (connections (tryConnect (mkRef 21 22) (mkRef 7 8) sampleGrid))) = 1"
proof -
  have "reachable (tryConnect (mkRef 21 22) (mkRef 7 8) sampleGrid)"
    using reachable_sampleGrid by (rule r_connect)
  from reachable_single_source_per_sink [OF this, of "mkRef 7 8"]
  have "length (filter (\<lambda>conn. conn_to conn = mkRef 7 8)
             (connections (tryConnect (mkRef 21 22) (mkRef 7 8) sampleGrid))) \<le> 1" .
  moreover have "length (filter (\<lambda>conn. conn_to conn = mkRef 7 8)
             (connections (tryConnect (mkRef 21 22) (mkRef 7 8) sampleGrid))) \<ge> 1"
    by code_simp
  ultimately show ?thesis by simp
qed

section \<open>The propagation engine: lemmas\<close>

lemma colorsEqual_iff [simp]: "colorsEqual a b = (a = b)"
proof (cases a)
  case None
  then show ?thesis by (cases b) simp_all
next
  case (Some x)
  show ?thesis
  proof (cases b)
    case None
    with Some show ?thesis by simp
  next
    case (Some y)
    obtain r g b' where x: "x = (r, g, b')" by (cases x)
    obtain r' g' b'' where y: "y = (r', g', b'')" by (cases y)
    from \<open>a = Some x\<close> Some x y show ?thesis by auto
  qed
qed

lemma slotRead_upd [simp]: "slotRead (s(k \<mapsto> v)) q = (if q = k then v else slotRead s q)"
  by (simp add: slotRead_def)

lemma getOutput_upd [simp]: "getOutput (m(k \<mapsto> v)) q = (if q = k then v else getOutput m q)"
  by (simp add: getOutput_def)

lemma setPortOutput_eq:
  "setPortOutput m k col = (if getOutput m k = col then (m, False) else (m(k \<mapsto> col), True))"
  by (simp add: setPortOutput_def Let_def)

subsection \<open>One step of each port loop\<close>

lemma emitAll_Cons:
  "emitAll cid col (p # ps) (m, ch) =
     (if getOutput m (cid, port_id p) = col then emitAll cid col ps (m, ch)
      else emitAll cid col ps (m((cid, port_id p) \<mapsto> col), True))"
  by (simp add: setPortOutput_eq portKey_def)

lemma emitStored_Cons:
  "emitStored cid slots (p # ps) (m, ch) =
     (if port_role p = Flex \<and> getOutput m (cid, port_id p) \<noteq> slotRead slots (port_id p)
      then emitStored cid slots ps (m((cid, port_id p) \<mapsto> slotRead slots (port_id p)), True)
      else emitStored cid slots ps (m, ch))"
  by (simp add: setPortOutput_eq portKey_def Let_def)

lemma storeInbound_Cons:
  "storeInbound conns m cid (p # ps) (slots, ch) =
     (if port_role p = Flex \<and> slotRead slots (port_id p) \<noteq> inboundColor conns m cid (port_id p)
      then storeInbound conns m cid ps
             (slots(port_id p \<mapsto> inboundColor conns m cid (port_id p)), True)
      else storeInbound conns m cid ps (slots, ch))"
  by (simp add: Let_def)

declare emitAll.simps(2) [simp del] emitStored.simps(2) [simp del] storeInbound.simps(2) [simp del]

subsection \<open>The flag only accumulates\<close>

lemma emitAll_True [simp]: "snd (emitAll cid col ps (m, True))"
  by (induction ps arbitrary: m) (simp_all add: emitAll_Cons)

lemma emitStored_True [simp]: "snd (emitStored cid slots ps (m, True))"
  by (induction ps arbitrary: m) (simp_all add: emitStored_Cons)

lemma storeInbound_True [simp]: "snd (storeInbound conns m cid ps (slots, True))"
  by (induction ps arbitrary: slots) (simp_all add: storeInbound_Cons)

lemma emitAll_fst: "fst (emitAll cid col ps (m, ch)) = fst (emitAll cid col ps (m, False))"
proof (induction ps arbitrary: m ch)
  case Nil
  show ?case by simp
next
  case (Cons p ps)
  show ?case by (simp add: emitAll_Cons Cons.IH [of m ch])
qed

lemma emitAll_snd: "snd (emitAll cid col ps (m, ch)) = (ch \<or> snd (emitAll cid col ps (m, False)))"
proof (induction ps arbitrary: m ch)
  case Nil
  show ?case by simp
next
  case (Cons p ps)
  show ?case by (simp add: emitAll_Cons Cons.IH [of m ch])
qed

lemma emitAll_unchanged:
  assumes "\<not> snd (emitAll cid col ps (m, ch))"
  shows "fst (emitAll cid col ps (m, ch)) = m \<and> \<not> ch
       \<and> (\<forall>p\<in>set ps. getOutput m (cid, port_id p) = col)"
  using assms
proof (induction ps arbitrary: m ch)
  case Nil
  then show ?case by simp
next
  case (Cons p ps)
  show ?case
  proof (cases "getOutput m (cid, port_id p) = col")
    case True
    with Cons.prems have "\<not> snd (emitAll cid col ps (m, ch))"
      by (simp add: emitAll_Cons)
    from Cons.IH [OF this] True show ?thesis by (auto simp: emitAll_Cons)
  next
    case False
    with Cons.prems show ?thesis by (simp add: emitAll_Cons)
  qed
qed

lemma emitStored_fst:
  "fst (emitStored cid slots ps (m, ch)) = fst (emitStored cid slots ps (m, False))"
proof (induction ps arbitrary: m ch)
  case Nil
  show ?case by simp
next
  case (Cons p ps)
  show ?case by (simp add: emitStored_Cons Cons.IH [of m ch])
qed

lemma emitStored_snd:
  "snd (emitStored cid slots ps (m, ch)) = (ch \<or> snd (emitStored cid slots ps (m, False)))"
proof (induction ps arbitrary: m ch)
  case Nil
  show ?case by simp
next
  case (Cons p ps)
  show ?case by (simp add: emitStored_Cons Cons.IH [of m ch])
qed

lemma emitStored_unchanged:
  assumes "\<not> snd (emitStored cid slots ps (m, ch))"
  shows "fst (emitStored cid slots ps (m, ch)) = m \<and> \<not> ch"
  using assms
proof (induction ps arbitrary: m ch)
  case Nil
  then show ?case by simp
next
  case (Cons p ps)
  show ?case
  proof (cases "port_role p = Flex
      \<and> getOutput m (cid, port_id p) \<noteq> slotRead slots (port_id p)")
    case True
    with Cons.prems show ?thesis by (simp add: emitStored_Cons)
  next
    case False
    with Cons.prems have "\<not> snd (emitStored cid slots ps (m, ch))"
      by (simp add: emitStored_Cons)
    from Cons.IH [OF this] False show ?thesis by (auto simp: emitStored_Cons)
  qed
qed

lemma emitStored_cong:
  assumes "\<forall>p\<in>set ps. port_role p = Flex \<longrightarrow> slotRead s1 (port_id p) = slotRead s2 (port_id p)"
  shows "emitStored cid s1 ps (m, ch) = emitStored cid s2 ps (m, ch)"
  using assms
proof (induction ps arbitrary: m ch)
  case Nil
  show ?case by simp
next
  case (Cons p ps)
  from Cons.prems have "\<forall>p\<in>set ps. port_role p = Flex \<longrightarrow> slotRead s1 (port_id p) = slotRead s2 (port_id p)"
    by simp
  note IH = Cons.IH [OF this]
  from Cons.prems have "port_role p = Flex \<longrightarrow> slotRead s1 (port_id p) = slotRead s2 (port_id p)"
    by simp
  then show ?case by (auto simp: emitStored_Cons IH simp del: fun_upd_apply)
qed

lemma storeInbound_fst:
  "fst (storeInbound conns m cid ps (slots, ch)) = fst (storeInbound conns m cid ps (slots, False))"
proof (induction ps arbitrary: slots ch)
  case Nil
  show ?case by simp
next
  case (Cons p ps)
  show ?case by (simp add: storeInbound_Cons Cons.IH [of slots ch])
qed

lemma storeInbound_snd:
  "snd (storeInbound conns m cid ps (slots, ch))
     = (ch \<or> snd (storeInbound conns m cid ps (slots, False)))"
proof (induction ps arbitrary: slots ch)
  case Nil
  show ?case by simp
next
  case (Cons p ps)
  show ?case by (simp add: storeInbound_Cons Cons.IH [of slots ch])
qed

lemma storeInbound_unchanged:
  assumes "\<not> snd (storeInbound conns m cid ps (slots, ch))"
  shows "fst (storeInbound conns m cid ps (slots, ch)) = slots \<and> \<not> ch"
  using assms
proof (induction ps arbitrary: slots ch)
  case Nil
  then show ?case by simp
next
  case (Cons p ps)
  show ?case
  proof (cases "port_role p = Flex
      \<and> slotRead slots (port_id p) \<noteq> inboundColor conns m cid (port_id p)")
    case True
    with Cons.prems show ?thesis by (simp add: storeInbound_Cons)
  next
    case False
    with Cons.prems have "\<not> snd (storeInbound conns m cid ps (slots, ch))"
      by (simp add: storeInbound_Cons)
    from Cons.IH [OF this] False show ?thesis by (auto simp: storeInbound_Cons)
  qed
qed

text \<open>After the first loop every flex port holds what arrives at it.\<close>

lemma storeInbound_slotRead:
  "slotRead (fst (storeInbound conns m cid ps (slots, ch))) q =
     (if q \<in> port_id ` {p \<in> set ps. port_role p = Flex} then inboundColor conns m cid q
      else slotRead slots q)"
proof (induction ps arbitrary: slots ch q)
  case Nil
  show ?case by simp
next
  case (Cons p ps)
  show ?case
  proof (cases "port_role p = Flex")
    case False
    then have "{x \<in> set (p # ps). port_role x = Flex} = {x \<in> set ps. port_role x = Flex}" by auto
    with False show ?thesis by (simp add: storeInbound_Cons Cons.IH)
  next
    case True
    then have eq: "{x \<in> set (p # ps). port_role x = Flex} = insert p {x \<in> set ps. port_role x = Flex}"
      by auto
    show ?thesis unfolding eq using True
      by (auto simp: storeInbound_Cons Cons.IH simp del: fun_upd_apply)
  qed
qed

text \<open>Two runs of the first loop on slots that read alike on a set of ports take the
  same decisions.\<close>

lemma storeInbound_lockstep:
  assumes "\<forall>q\<in>Q. slotRead s1 q = slotRead s2 q"
    and "port_id ` {p \<in> set ps. port_role p = Flex} \<subseteq> Q"
  shows "snd (storeInbound conns m cid ps (s1, ch)) = snd (storeInbound conns m cid ps (s2, ch))"
  using assms
proof (induction ps arbitrary: s1 s2 ch)
  case Nil
  show ?case by simp
next
  case (Cons p ps)
  from Cons.prems(2) have sub: "port_id ` {p \<in> set ps. port_role p = Flex} \<subseteq> Q" by auto
  show ?case
  proof (cases "port_role p = Flex")
    case False
    with Cons.IH [OF Cons.prems(1) sub] show ?thesis by (simp add: storeInbound_Cons)
  next
    case True
    with Cons.prems(2) have "port_id p \<in> Q" by auto
    with Cons.prems(1) have same: "slotRead s1 (port_id p) = slotRead s2 (port_id p)" by simp
    show ?thesis
    proof (cases "slotRead s1 (port_id p) = inboundColor conns m cid (port_id p)")
      case True
      with same Cons.IH [OF Cons.prems(1) sub] show ?thesis by (simp add: storeInbound_Cons)
    next
      case False
      with same show ?thesis by (simp add: storeInbound_Cons \<open>port_role p = Flex\<close>)
    qed
  qed
qed

lemma processComponent_plain:
  assumes "comp_type c \<noteq> Storage"
  shows "processComponent conns c (m, ch)
           = (c, emitAll (comp_id c) (emitted conns m c) (outPorts c) (m, ch))"
  using assms
  by (cases "comp_type c")
     (simp_all add: processComponent_def emitted_def outPorts_def Let_def split: option.splits)

lemma processComponent_Storage:
  assumes "comp_type c = Storage"
  shows "processComponent conns c (m, ch)
           = (c\<lparr>storageSlots :=
                  Some (fst (storeInbound conns m (comp_id c) (comp_ports c) (slotsOf c, ch)))\<rparr>,
              emitStored (comp_id c)
                (fst (storeInbound conns m (comp_id c) (comp_ports c) (slotsOf c, ch)))
                (comp_ports c)
                (m, snd (storeInbound conns m (comp_id c) (comp_ports c) (slotsOf c, ch))))"
  using assms by (simp add: processComponent_def Let_def split_def)

lemma skeleton_fields:
  assumes "skeleton c1 = skeleton c2"
  shows "comp_id c1 = comp_id c2" "comp_type c1 = comp_type c2" "comp_color c1 = comp_color c2"
    "comp_ports c1 = comp_ports c2" "comp_mode c1 = comp_mode c2"
proof -
  have "comp_id (skeleton c1) = comp_id (skeleton c2)"
    "comp_type (skeleton c1) = comp_type (skeleton c2)"
    "comp_color (skeleton c1) = comp_color (skeleton c2)"
    "comp_ports (skeleton c1) = comp_ports (skeleton c2)"
    "comp_mode (skeleton c1) = comp_mode (skeleton c2)"
    using assms by simp_all
  then show "comp_id c1 = comp_id c2" "comp_type c1 = comp_type c2" "comp_color c1 = comp_color c2"
    "comp_ports c1 = comp_ports c2" "comp_mode c1 = comp_mode c2"
    by (simp_all add: skeleton_def)
qed

lemma skeleton_slots [simp]: "skeleton (c\<lparr>storageSlots := s\<rparr>) = skeleton c"
  by (simp add: skeleton_def)

lemma slotsOf_Some [simp]: "slotsOf (c\<lparr>storageSlots := Some s\<rparr>) = s"
  by (simp add: slotsOf_def)

lemma fields_slots [simp]:
  "comp_type (c\<lparr>storageSlots := s\<rparr>) = comp_type c"
  "comp_ports (c\<lparr>storageSlots := s\<rparr>) = comp_ports c"
  "comp_id (c\<lparr>storageSlots := s\<rparr>) = comp_id c"
  by simp_all

lemma skeleton_eqD:
  assumes "skeleton c1 = skeleton c2"
  shows "c1 = c2\<lparr>storageSlots := storageSlots c1\<rparr>"
  using assms by (cases c1; cases c2) (simp add: skeleton_def)

lemma emitted_slots [simp]: "emitted conns m (c\<lparr>storageSlots := s\<rparr>) = emitted conns m c"
  by (simp add: emitted_def adderOut_def inputColors_def gradientorOut_def
           split: ctype.splits option.splits)

lemma outPorts_slots [simp]: "outPorts (c\<lparr>storageSlots := s\<rparr>) = outPorts c"
  by (simp add: outPorts_def split: ctype.splits option.splits)

lemma emitted_skeleton:
  assumes "skeleton c1 = skeleton c2"
  shows "emitted conns m c1 = emitted conns m c2"
  by (subst skeleton_eqD [OF assms]) simp

lemma outPorts_skeleton:
  assumes "skeleton c1 = skeleton c2"
  shows "outPorts c1 = outPorts c2"
  by (subst skeleton_eqD [OF assms]) simp

lemma processComponent_skeleton [simp]:
  "skeleton (fst (processComponent conns c (m, ch))) = skeleton c"
  by (cases "comp_type c = Storage")
     (simp_all add: processComponent_plain processComponent_Storage)

lemma sameHeld_refl [simp]: "sameHeld c c"
  by (simp add: sameHeld_def)

lemma sameHeld_skeleton: "sameHeld c1 c2 \<Longrightarrow> skeleton c1 = skeleton c2"
  by (simp add: sameHeld_def)

lemma sameHeld_sym:
  assumes "sameHeld c1 c2"
  shows "sameHeld c2 c1"
  using assms skeleton_fields(2,4) [OF sameHeld_skeleton [OF assms]]
  by (simp add: sameHeld_def)

lemma sameHeld_trans:
  assumes "sameHeld c1 c2" "sameHeld c2 c3"
  shows "sameHeld c1 c3"
  using assms skeleton_fields(2,4) [OF sameHeld_skeleton [OF assms(1)]]
  by (simp add: sameHeld_def)

text \<open>The map a component leaves behind does not depend on what it held before.\<close>

lemma processComponent_forget:
  assumes sk: "skeleton c1 = skeleton c2"
  shows "fst (snd (processComponent conns c1 (m, ch1))) = fst (snd (processComponent conns c2 (m, ch2)))
       \<and> sameHeld (fst (processComponent conns c1 (m, ch1))) (fst (processComponent conns c2 (m, ch2)))"
proof (cases "comp_type c1 = Storage")
  case False
  with skeleton_fields(2) [OF sk] have ns: "comp_type c1 \<noteq> Storage" "comp_type c2 \<noteq> Storage"
    by simp_all
  show ?thesis
    using ns sk skeleton_fields(1) [OF sk] emitted_skeleton [OF sk, of conns m]
      outPorts_skeleton [OF sk]
      emitAll_fst [of "comp_id c2" "emitted conns m c2" "outPorts c2" m ch1]
      emitAll_fst [of "comp_id c2" "emitted conns m c2" "outPorts c2" m ch2]
    by (simp add: processComponent_plain sameHeld_def)
next
  case True
  with skeleton_fields(2) [OF sk] have st: "comp_type c1 = Storage" "comp_type c2 = Storage"
    by simp_all
  note f = skeleton_fields [OF sk]
  let ?s1 = "fst (storeInbound conns m (comp_id c1) (comp_ports c1) (slotsOf c1, ch1))"
  let ?s2 = "fst (storeInbound conns m (comp_id c2) (comp_ports c2) (slotsOf c2, ch2))"
  have rd: "\<forall>p\<in>set (comp_ports c1). port_role p = Flex \<longrightarrow>
      slotRead ?s1 (port_id p) = slotRead ?s2 (port_id p)"
    using f(1,4) by (auto simp: storeInbound_slotRead)
  have "fst (emitStored (comp_id c1) ?s1 (comp_ports c1) (m, b1))
      = fst (emitStored (comp_id c2) ?s2 (comp_ports c2) (m, b2))" for b1 b2
    using emitStored_cong [OF rd, of "comp_id c1" m False]
      emitStored_fst [of "comp_id c1" ?s1 "comp_ports c1" m b1]
      emitStored_fst [of "comp_id c2" ?s2 "comp_ports c2" m b2] f(1,4)
    by simp
  with rd sk st show ?thesis
    by (simp add: processComponent_Storage sameHeld_def)
qed

text \<open>Components that hold the same colours are processed alike, flag included.\<close>

lemma processComponent_lockstep:
  assumes sh: "sameHeld c1 c2"
  shows "snd (processComponent conns c1 (m, ch)) = snd (processComponent conns c2 (m, ch))
       \<and> sameHeld (fst (processComponent conns c1 (m, ch))) (fst (processComponent conns c2 (m, ch)))"
proof (cases "comp_type c1 = Storage")
  case False
  note sk = sameHeld_skeleton [OF sh]
  from False skeleton_fields(2) [OF sk] have ns: "comp_type c1 \<noteq> Storage" "comp_type c2 \<noteq> Storage"
    by simp_all
  show ?thesis
    using ns sk skeleton_fields(1) [OF sk] emitted_skeleton [OF sk, of conns m]
      outPorts_skeleton [OF sk]
    by (simp add: processComponent_plain sameHeld_def)
next
  case True
  note sk = sameHeld_skeleton [OF sh]
  from True skeleton_fields(2) [OF sk] have st: "comp_type c1 = Storage" "comp_type c2 = Storage"
    by simp_all
  note f = skeleton_fields [OF sk]
  let ?Q = "port_id ` {p \<in> set (comp_ports c1). port_role p = Flex}"
  let ?r1 = "storeInbound conns m (comp_id c1) (comp_ports c1) (slotsOf c1, ch)"
  let ?r2 = "storeInbound conns m (comp_id c2) (comp_ports c2) (slotsOf c2, ch)"
  have q: "\<forall>q\<in>?Q. slotRead (slotsOf c1) q = slotRead (slotsOf c2) q"
    using sh True by (auto simp: sameHeld_def)
  have fl: "snd ?r1 = snd ?r2"
    using storeInbound_lockstep [OF q subset_refl, of conns m "comp_id c1" ch] f(1,4) by simp
  have rd: "\<forall>p\<in>set (comp_ports c1). port_role p = Flex \<longrightarrow>
      slotRead (fst ?r1) (port_id p) = slotRead (fst ?r2) (port_id p)"
    using f(1,4) by (auto simp: storeInbound_slotRead)
  have "emitStored (comp_id c1) (fst ?r1) (comp_ports c1) (m, snd ?r1)
      = emitStored (comp_id c2) (fst ?r2) (comp_ports c2) (m, snd ?r2)"
    using emitStored_cong [OF rd, of "comp_id c1" m "snd ?r1"] fl f(1,4) by simp
  with rd sk st show ?thesis
    by (simp add: processComponent_Storage sameHeld_def)
qed

lemma processComponent_True [simp]: "snd (snd (processComponent conns c (m, True)))"
proof (cases "comp_type c = Storage")
  case True
  then show ?thesis by (simp add: processComponent_Storage)
next
  case False
  then show ?thesis by (simp add: processComponent_plain)
qed

text \<open>A component that raises no flag has changed nothing.\<close>

lemma processComponent_unchanged:
  assumes "\<not> snd (snd (processComponent conns c (m, ch)))"
  shows "fst (snd (processComponent conns c (m, ch))) = m \<and> \<not> ch
       \<and> sameHeld c (fst (processComponent conns c (m, ch)))
       \<and> (comp_type c \<noteq> Storage \<longrightarrow>
            fst (processComponent conns c (m, ch)) = c
            \<and> (\<forall>p\<in>set (outPorts c). getOutput m (comp_id c, port_id p) = emitted conns m c))"
proof (cases "comp_type c = Storage")
  case False
  with assms have "\<not> snd (emitAll (comp_id c) (emitted conns m c) (outPorts c) (m, ch))"
    by (simp add: processComponent_plain)
  from emitAll_unchanged [OF this] False show ?thesis
    by (auto simp: processComponent_plain)
next
  case True
  let ?r = "storeInbound conns m (comp_id c) (comp_ports c) (slotsOf c, ch)"
  from assms True have "\<not> snd (emitStored (comp_id c) (fst ?r) (comp_ports c) (m, snd ?r))"
    by (simp add: processComponent_Storage)
  from emitStored_unchanged [OF this]
  have e: "fst (emitStored (comp_id c) (fst ?r) (comp_ports c) (m, snd ?r)) = m" and "\<not> snd ?r"
    by blast+
  from storeInbound_unchanged [OF this(2)] have s: "fst ?r = slotsOf c" "\<not> ch" by blast+
  with e True show ?thesis
    by (simp add: processComponent_Storage sameHeld_def)
qed

text \<open>After its turn a storage component holds, at every flex port, what arrived there.\<close>

lemma processComponent_held:
  assumes "comp_type c = Storage" "p \<in> set (comp_ports c)" "port_role p = Flex"
  shows "slotRead (slotsOf (fst (processComponent conns c (m, ch)))) (port_id p)
           = inboundColor conns m (comp_id c) (port_id p)"
  using assms by (auto simp: processComponent_Storage storeInbound_slotRead)

subsection \<open>One round\<close>

lemma forEachComponent_Cons:
  "forEachComponent conns (c # cs) mc =
     (fst (processComponent conns c mc)
        # fst (forEachComponent conns cs (snd (processComponent conns c mc))),
      snd (forEachComponent conns cs (snd (processComponent conns c mc))))"
  by (simp add: split_def Let_def)

declare forEachComponent.simps(2) [simp del]

lemma forEachComponent_skeleton [simp]:
  "map skeleton (fst (forEachComponent conns comps (m, ch))) = map skeleton comps"
proof (induction comps arbitrary: m ch)
  case Nil
  show ?case by simp
next
  case (Cons c cs)
  obtain m' ch' where r: "snd (processComponent conns c (m, ch)) = (m', ch')"
    by (cases "snd (processComponent conns c (m, ch))")
  show ?case by (simp add: forEachComponent_Cons r Cons.IH)
qed

lemma forEachComponent_True [simp]: "snd (snd (forEachComponent conns comps (m, True)))"
proof (induction comps arbitrary: m)
  case Nil
  show ?case by simp
next
  case (Cons c cs)
  obtain m' where r: "snd (processComponent conns c (m, True)) = (m', True)"
    using processComponent_True [of conns c m]
    by (cases "snd (processComponent conns c (m, True))") simp
  show ?case by (simp add: forEachComponent_Cons r Cons.IH)
qed

lemma forEachComponent_forget:
  assumes "map skeleton comps1 = map skeleton comps2"
  shows "fst (snd (forEachComponent conns comps1 (m, ch1)))
           = fst (snd (forEachComponent conns comps2 (m, ch2)))
       \<and> list_all2 sameHeld (fst (forEachComponent conns comps1 (m, ch1)))
                             (fst (forEachComponent conns comps2 (m, ch2)))"
  using assms
proof (induction comps1 arbitrary: comps2 m ch1 ch2)
  case Nil
  then show ?case by simp
next
  case (Cons c1 cs1)
  from Cons.prems obtain c2 cs2 where c2: "comps2 = c2 # cs2"
    and sk: "skeleton c1 = skeleton c2" and rest: "map skeleton cs1 = map skeleton cs2"
    by (cases comps2) auto
  obtain m1 f1 where r1: "snd (processComponent conns c1 (m, ch1)) = (m1, f1)"
    by (cases "snd (processComponent conns c1 (m, ch1))")
  obtain m2 f2 where r2: "snd (processComponent conns c2 (m, ch2)) = (m2, f2)"
    by (cases "snd (processComponent conns c2 (m, ch2))")
  from processComponent_forget [OF sk, of conns m ch1 ch2] r1 r2
  have "m1 = m2" and sh: "sameHeld (fst (processComponent conns c1 (m, ch1)))
      (fst (processComponent conns c2 (m, ch2)))"
    by simp_all
  with Cons.IH [OF rest, of m2 f1 f2] show ?case
    by (simp add: c2 forEachComponent_Cons r1 r2)
qed

lemma forEachComponent_lockstep:
  assumes "list_all2 sameHeld comps1 comps2"
  shows "snd (forEachComponent conns comps1 (m, ch)) = snd (forEachComponent conns comps2 (m, ch))
       \<and> list_all2 sameHeld (fst (forEachComponent conns comps1 (m, ch)))
                             (fst (forEachComponent conns comps2 (m, ch)))"
  using assms
proof (induction comps1 comps2 arbitrary: m ch rule: list_all2_induct)
  case Nil
  show ?case by simp
next
  case (Cons c1 cs1 c2 cs2)
  obtain m1 f1 where r1: "snd (processComponent conns c1 (m, ch)) = (m1, f1)"
    by (cases "snd (processComponent conns c1 (m, ch))")
  from processComponent_lockstep [OF Cons.hyps(1), of conns m ch] r1
  have r2: "snd (processComponent conns c2 (m, ch)) = (m1, f1)"
    and sh: "sameHeld (fst (processComponent conns c1 (m, ch)))
      (fst (processComponent conns c2 (m, ch)))"
    by simp_all
  with Cons.IH [of m1 f1] show ?case
    by (simp add: forEachComponent_Cons r1 r2)
qed

lemma forEachComponent_unchanged:
  assumes "\<not> snd (snd (forEachComponent conns comps (m, ch)))"
  shows "fst (snd (forEachComponent conns comps (m, ch))) = m \<and> \<not> ch
       \<and> list_all2 sameHeld comps (fst (forEachComponent conns comps (m, ch)))
       \<and> stable conns m (fst (forEachComponent conns comps (m, ch)))"
  using assms
proof (induction comps arbitrary: m ch)
  case Nil
  then show ?case by (simp add: stable_def)
next
  case (Cons c cs)
  obtain m1 f1 where r: "snd (processComponent conns c (m, ch)) = (m1, f1)"
    by (cases "snd (processComponent conns c (m, ch))")
  from Cons.prems have "\<not> snd (snd (forEachComponent conns cs (m1, f1)))"
    by (simp add: forEachComponent_Cons r)
  from Cons.IH [OF this]
  have 1: "fst (snd (forEachComponent conns cs (m1, f1))) = m1" and 2: "\<not> f1"
    and 3: "list_all2 sameHeld cs (fst (forEachComponent conns cs (m1, f1)))"
    and 4: "stable conns m1 (fst (forEachComponent conns cs (m1, f1)))"
    by blast+
  from 2 r have "\<not> snd (snd (processComponent conns c (m, ch)))" by simp
  note u = processComponent_unchanged [OF this]
  have 5: "m1 = m" using conjunct1 [OF u] r by simp
  from u have 6: "\<not> ch" and 7: "sameHeld c (fst (processComponent conns c (m, ch)))"
    and 8: "comp_type c \<noteq> Storage \<longrightarrow> fst (processComponent conns c (m, ch)) = c
            \<and> (\<forall>p\<in>set (outPorts c). getOutput m (comp_id c, port_id p) = emitted conns m c)"
    by blast+
  have 9: "comp_type (fst (processComponent conns c (m, ch))) = comp_type c"
    using skeleton_fields(2) [OF processComponent_skeleton [of conns c m ch]] .
  have eq: "forEachComponent conns (c # cs) (m, ch)
      = (fst (processComponent conns c (m, ch)) # fst (forEachComponent conns cs (m1, f1)),
         snd (forEachComponent conns cs (m1, f1)))"
    by (simp add: forEachComponent_Cons r)
  show ?case
    unfolding eq using 1 3 4 5 6 7 8 9
    by (auto simp: stable_def)
qed

lemma forEachComponent_held:
  assumes "i < length comps" "comp_type (comps ! i) = Storage" "p \<in> set (comp_ports (comps ! i))"
    "port_role p = Flex" "findInbound conns (comp_id (comps ! i)) (port_id p) = None"
  shows "slotRead (slotsOf (fst (forEachComponent conns comps (m, ch)) ! i)) (port_id p) = None"
  using assms
proof (induction comps arbitrary: i m ch)
  case Nil
  then show ?case by simp
next
  case (Cons c cs)
  obtain m1 f1 where r: "snd (processComponent conns c (m, ch)) = (m1, f1)"
    by (cases "snd (processComponent conns c (m, ch))")
  show ?case
  proof (cases i)
    case 0
    with Cons.prems processComponent_held [of c p conns m ch] show ?thesis
      by (simp add: forEachComponent_Cons inboundColor_def)
  next
    case (Suc j)
    with Cons.prems Cons.IH [of j m1 f1] show ?thesis
      by (simp add: forEachComponent_Cons r)
  qed
qed

subsection \<open>The whole loop\<close>

lemma list_all2_sameHeld_sym:
  "list_all2 sameHeld xs ys \<Longrightarrow> list_all2 sameHeld ys xs"
  by (auto simp: list_all2_conv_all_nth intro: sameHeld_sym)

lemma list_all2_sameHeld_trans:
  "list_all2 sameHeld xs ys \<Longrightarrow> list_all2 sameHeld ys zs \<Longrightarrow> list_all2 sameHeld xs zs"
  by (rule list_all2_trans [of sameHeld sameHeld sameHeld]) (rule sameHeld_trans)

lemma computeLoop_skeleton:
  "map skeleton (snd (snd (snd (computeLoop conns ch g m comps)))) = map skeleton comps"
proof (induction conns ch g m comps rule: computeLoop.induct)
  case (1 conns changed guard m comps)
  show ?case
  proof (cases "changed \<and> guard < 8")
    case True
    obtain comps' m' changed' where fe: "forEachComponent conns comps (m, False) = (comps', m', changed')"
      by (cases "forEachComponent conns comps (m, False)")
    have "map skeleton comps' = map skeleton comps"
      using forEachComponent_skeleton [of conns comps m False] fe by simp
    with "1.IH" [OF True fe [symmetric] refl] True fe show ?thesis
      by (simp add: computeLoop_step)
  next
    case False
    then show ?thesis by (simp add: computeLoop_stop)
  qed
qed

lemma computeLoop_lockstep:
  "list_all2 sameHeld comps1 comps2 \<Longrightarrow>
   fst (snd (snd (computeLoop conns ch g m comps1))) = fst (snd (snd (computeLoop conns ch g m comps2)))"
proof (induction conns ch g m comps1 arbitrary: comps2 rule: computeLoop.induct)
  case (1 conns changed guard m comps)
  show ?case
  proof (cases "changed \<and> guard < 8")
    case True
    obtain comps' m' changed' where fe: "forEachComponent conns comps (m, False) = (comps', m', changed')"
      by (cases "forEachComponent conns comps (m, False)")
    obtain comps2' where fe2: "forEachComponent conns comps2 (m, False) = (comps2', m', changed')"
      and sh: "list_all2 sameHeld comps' comps2'"
      using forEachComponent_lockstep [OF "1.prems", of conns m False] fe
      by (cases "forEachComponent conns comps2 (m, False)") simp
    from "1.IH" [OF True fe [symmetric] refl sh] True fe fe2 show ?thesis
      by (simp add: computeLoop_step)
  next
    case False
    then show ?thesis by (simp add: computeLoop_stop)
  qed
qed

lemma computeLoop_stable:
  "(\<not> ch \<longrightarrow> stable conns m comps) \<Longrightarrow> \<not> fst (computeLoop conns ch g m comps) \<Longrightarrow>
   stable conns (fst (snd (snd (computeLoop conns ch g m comps))))
     (snd (snd (snd (computeLoop conns ch g m comps))))"
proof (induction conns ch g m comps rule: computeLoop.induct)
  case (1 conns changed guard m comps)
  show ?case
  proof (cases "changed \<and> guard < 8")
    case True
    obtain comps' m' changed' where fe: "forEachComponent conns comps (m, False) = (comps', m', changed')"
      by (cases "forEachComponent conns comps (m, False)")
    have "\<not> changed' \<longrightarrow> stable conns m' comps'"
      using forEachComponent_unchanged [of conns comps m False] fe by simp
    moreover have "\<not> fst (computeLoop conns changed' (guard + 1) m' comps')"
      using "1.prems"(2) True fe by (simp add: computeLoop_step)
    ultimately show ?thesis
      using "1.IH" [OF True fe [symmetric] refl] True fe by (simp add: computeLoop_step)
  next
    case False
    with "1.prems" show ?thesis by (simp add: computeLoop_stop)
  qed
qed

lemma forEachComponent_cleared:
  "cleared conns (fst (forEachComponent conns comps (m, ch)))"
  unfolding cleared_def
proof (intro ballI impI)
  fix c p
  let ?comps' = "fst (forEachComponent conns comps (m, ch))"
  assume c: "c \<in> set ?comps'" and t: "comp_type c = Storage"
    and p: "p \<in> set (comp_ports c)" and f: "port_role p = Flex"
    and n: "findInbound conns (comp_id c) (port_id p) = None"
  have len: "length ?comps' = length comps"
    using forEachComponent_skeleton [of conns comps m ch] by (metis length_map)
  from c obtain i where i: "i < length ?comps'" "?comps' ! i = c"
    by (auto simp: in_set_conv_nth)
  have "skeleton (?comps' ! i) = skeleton (comps ! i)"
    using forEachComponent_skeleton [of conns comps m ch] i(1) len
    by (metis nth_map)
  note fs = skeleton_fields [OF this, unfolded i(2)]
  from forEachComponent_held [of i comps p conns m ch] i len t p f n fs
  show "slotRead (slotsOf c) (port_id p) = None" by simp
qed

lemma computeLoop_cleared:
  "(ch \<and> g < 8) \<or> cleared conns comps \<Longrightarrow>
   cleared conns (snd (snd (snd (computeLoop conns ch g m comps))))"
proof (induction conns ch g m comps rule: computeLoop.induct)
  case (1 conns changed guard m comps)
  show ?case
  proof (cases "changed \<and> guard < 8")
    case True
    obtain comps' m' changed' where fe: "forEachComponent conns comps (m, False) = (comps', m', changed')"
      by (cases "forEachComponent conns comps (m, False)")
    have "cleared conns comps'"
      using forEachComponent_cleared [of conns comps m False] fe by simp
    with "1.IH" [OF True fe [symmetric] refl] True fe show ?thesis
      by (simp add: computeLoop_step)
  next
    case False
    with "1.prems" show ?thesis by (auto simp: computeLoop_stop)
  qed
qed

text \<open>A round that changed nothing is repeated without change on any grid that holds the
  same colours.\<close>

lemma computeLoop_settled:
  assumes fe: "forEachComponent conns comps (m, False) = (comps', m', False)"
    and sh: "list_all2 sameHeld comps' other"
    and g: "g < 8"
  shows "fst (snd (snd (computeLoop conns True g m' other))) = m'"
proof -
  from forEachComponent_unchanged [of conns comps m False] fe
  have m': "m' = m" and sh0: "list_all2 sameHeld comps comps'" by simp_all
  have "list_all2 sameHeld comps other" using sh0 sh by (rule list_all2_sameHeld_trans)
  from forEachComponent_lockstep [OF this, of conns m False] fe
  obtain other' where o: "forEachComponent conns other (m, False) = (other', m, False)"
    by (cases "forEachComponent conns other (m, False)") (simp add: m')
  have "computeLoop conns True g m other = computeLoop conns False (g + 1) m other'"
    using computeLoop_step [OF _ g o] by simp
  then show ?thesis by (simp add: computeLoop_stop m')
qed

text \<open>
  Claim C9: two calls of \<open>computeColors\<close> in a row hand the same port-output map to the
  view, for every state. The second call starts from the colours the first one stored,
  but what a storage port emits in a round is what arrived at it in that round, so the
  maps of the two calls agree round by round; they can only differ in when they stop,
  and then the longer run repeats a round that changes nothing.
\<close>

theorem recompute_idempotent: "portColors (computeColors st) = portColors st"
proof -
  let ?conns = "connections st"
  let ?comps1 = "components st"
  let ?comps2 = "components (computeColors st)"
  have sk: "map skeleton ?comps1 = map skeleton ?comps2"
    by (simp add: computeColors_def computeColors_run_def computeLoop_skeleton)
  obtain c1 m1 f1 where fe1: "forEachComponent ?conns ?comps1 (Map.empty, False) = (c1, m1, f1)"
    by (cases "forEachComponent ?conns ?comps1 (Map.empty, False)")
  obtain c2 m2 f2 where fe2: "forEachComponent ?conns ?comps2 (Map.empty, False) = (c2, m2, f2)"
    by (cases "forEachComponent ?conns ?comps2 (Map.empty, False)")
  from forEachComponent_forget [OF sk, of ?conns Map.empty False False] fe1 fe2
  have m: "m2 = m1" and sh: "list_all2 sameHeld c1 c2" by simp_all
  have run1: "computeColors_run st = computeLoop ?conns f1 1 m1 c1"
    using computeLoop_step [OF _ _ fe1, of True 0] by (simp add: computeColors_run_def)
  have run2: "computeColors_run (computeColors st) = computeLoop ?conns f2 1 m1 c2"
    using computeLoop_step [OF _ _ fe2, of True 0] by (simp add: computeColors_run_def m)
  have "fst (snd (snd (computeLoop ?conns f1 1 m1 c1))) = fst (snd (snd (computeLoop ?conns f2 1 m1 c2)))"
  proof (cases "f1 = f2")
    case True
    then show ?thesis using computeLoop_lockstep [OF sh] by simp
  next
    case False
    show ?thesis
    proof (cases f1)
      case True
      with False have f2: "\<not> f2" by simp
      from fe2 f2 m have fe: "forEachComponent ?conns ?comps2 (Map.empty, False) = (c2, m1, False)"
        by simp
      have "fst (snd (snd (computeLoop ?conns True 1 m1 c1))) = m1"
        using computeLoop_settled [OF fe list_all2_sameHeld_sym [OF sh], of 1] by simp
      with True f2 show ?thesis by (simp add: computeLoop_stop)
    next
      case f1: False
      with False have f2: f2 by simp
      from fe1 f1 have fe: "forEachComponent ?conns ?comps1 (Map.empty, False) = (c1, m1, False)"
        by simp
      have "fst (snd (snd (computeLoop ?conns True 1 m1 c2))) = m1"
        using computeLoop_settled [OF fe sh, of 1] by simp
      with f1 f2 show ?thesis by (simp add: computeLoop_stop)
    qed
  qed
  then show ?thesis by (simp add: portColors_def run1 run2)
qed

subsection \<open>Storage\<close>

lemma storeInbound_raw:
  "fst (storeInbound conns m cid ps (slots, ch)) q =
     (if q \<in> set (map port_id (filter (\<lambda>p. port_role p = Flex) ps))
         \<and> slotRead slots q \<noteq> inboundColor conns m cid q
      then Some (inboundColor conns m cid q)
      else slots q)"
proof (induction ps arbitrary: slots ch q)
  case Nil
  show ?case by simp
next
  case (Cons p ps)
  show ?case
  proof (cases "port_role p = Flex
      \<and> slotRead slots (port_id p) \<noteq> inboundColor conns m cid (port_id p)")
    case True
    let ?inb = "inboundColor conns m cid"
    let ?s = "slots(port_id p \<mapsto> ?inb (port_id p))"
    have step: "fst (storeInbound conns m cid (p # ps) (slots, ch)) q
        = fst (storeInbound conns m cid ps (?s, True)) q"
      using True by (simp add: storeInbound_Cons)
    have ih: "fst (storeInbound conns m cid ps (?s, True)) q
        = (if q \<in> set (map port_id (filter (\<lambda>p. port_role p = Flex) ps))
              \<and> slotRead ?s q \<noteq> ?inb q
           then Some (?inb q) else ?s q)"
      by (rule Cons.IH)
    have rd: "slotRead ?s q = (if q = port_id p then ?inb (port_id p) else slotRead slots q)"
      by (rule slotRead_upd)
    have raw: "?s q = (if q = port_id p then Some (?inb (port_id p)) else slots q)"
      by simp
    show ?thesis
      unfolding step ih rd raw using True by auto
  next
    case False
    then show ?thesis
      by (auto simp: storeInbound_Cons Cons.IH simp del: fun_upd_apply)
  qed
qed

lemma computeColors_cleared:
  "cleared (connections st) (components (computeColors st))"
  using computeLoop_cleared [of True 0 "connections st" "components st" Map.empty]
  by (simp add: computeColors_def computeColors_run_def)

lemma computeColors_skeleton:
  "map skeleton (components (computeColors st)) = map skeleton (components st)"
  by (simp add: computeColors_def computeColors_run_def computeLoop_skeleton)

lemma unplugged_held: "storedColor (components unplugged ! 0) 8 = Some (255, 0, 0)"
  by code_simp

lemma unplugged_connections: "connections unplugged = []"
  by code_simp

lemma unplugged_after: "storedColor (components (computeColors unplugged) ! 0) 8 = None"
  by code_simp

lemma unplugged_delete: "deleteComponent 2 storedGrid = computeColors unplugged"
proof -
  have "findIndex (\<lambda>c. comp_id c = 2) (components storedGrid) = Some 0" by code_simp
  moreover have "selectedPort storedGrid = None" by code_simp
  ultimately show ?thesis
    by (simp add: deleteComponent_def unplugged_def Let_def)
qed

text \<open>
  Claim C3, as stated: \<open>computeColors\<close> leaves the colour held by a storage flex port
  without an incoming connection unchanged. It does not: \<open>unplugged\<close> is the grid
  \<open>deleteComponent\<close> hands to \<open>computeColors\<close> after the factory feeding port 8 of the
  storage container was deleted; the port holds red, has no incoming connection, and
  holds nothing afterwards.
\<close>

theorem storage_unfed_port_counterexample:
  "findInbound (connections unplugged) 7 8 = None
   \<and> storedColor (components unplugged ! 0) 8 = Some (255, 0, 0)
   \<and> storedColor (components (computeColors unplugged) ! 0) 8 = None"
  by (simp add: unplugged_held unplugged_after unplugged_connections findInbound_def)

text \<open>
  Claim C3, amended. The held colours are touched in one place only, the first loop of
  the storage branch of \<open>processComponent\<close>, and there port by port: after a storage
  container's turn the slot of \<open>q\<close> is overwritten, with the inbound colour read for
  \<open>q\<close>, exactly when \<open>q\<close> is one of its flex ports and that colour differs from the
  one held; every other slot is the one it was before, whatever happens to the other
  ports. A component of another kind comes back unchanged. The inbound colour of a port
  without an incoming connection is absent, so after \<open>computeColors\<close> every storage
  flex port without an incoming connection holds no colour.
\<close>

theorem storage_held_colour:
  "(comp_type c = Storage \<longrightarrow>
      slotsOf (fst (processComponent conns c (m, ch))) q
        = (if q \<in> set (map port_id (filter (\<lambda>p. port_role p = Flex) (comp_ports c)))
              \<and> slotRead (slotsOf c) q \<noteq> inboundColor conns m (comp_id c) q
           then Some (inboundColor conns m (comp_id c) q)
           else slotsOf c q))
   \<and> (comp_type c \<noteq> Storage \<longrightarrow> fst (processComponent conns c (m, ch)) = c)
   \<and> (i < length (components st) \<and> comp_type (components st ! i) = Storage
        \<and> p \<in> set (comp_ports (components st ! i)) \<and> port_role p = Flex
        \<and> findInbound (connections st) (comp_id (components st ! i)) (port_id p) = None
      \<longrightarrow> storedColor (components (computeColors st) ! i) (port_id p) = None)"
proof (intro conjI impI)
  assume "comp_type c = Storage"
  then show "slotsOf (fst (processComponent conns c (m, ch))) q
        = (if q \<in> set (map port_id (filter (\<lambda>p. port_role p = Flex) (comp_ports c)))
              \<and> slotRead (slotsOf c) q \<noteq> inboundColor conns m (comp_id c) q
           then Some (inboundColor conns m (comp_id c) q)
           else slotsOf c q)"
    by (simp only: processComponent_Storage fst_conv slotsOf_Some storeInbound_raw)
next
  assume "comp_type c \<noteq> Storage"
  then show "fst (processComponent conns c (m, ch)) = c"
    by (simp add: processComponent_plain)
next
  assume a: "i < length (components st) \<and> comp_type (components st ! i) = Storage
        \<and> p \<in> set (comp_ports (components st ! i)) \<and> port_role p = Flex
        \<and> findInbound (connections st) (comp_id (components st ! i)) (port_id p) = None"
  let ?c = "components st ! i" and ?c' = "components (computeColors st) ! i"
  have len: "length (components (computeColors st)) = length (components st)"
    using computeColors_skeleton [of st] by (metis length_map)
  have "skeleton ?c' = skeleton ?c"
    using computeColors_skeleton [of st] a len by (metis nth_map)
  note f = skeleton_fields [OF this]
  have mem: "?c' \<in> set (components (computeColors st))" using a len by simp
  from computeColors_cleared [of st] mem a f
  have "slotRead (slotsOf ?c') (port_id p) = None"
    unfolding cleared_def by auto
  then show "storedColor ?c' (port_id p) = None"
    by (simp add: storedColor_def slotsOf_def slotRead_def split: option.splits)
qed

theorem storage_held_colour_witness:
  "slotsOf (fst (processComponent [link 14 (2, 3) (7, 8)] holdingStore
                   ([(2, 3) \<mapsto> Some (255, 0, 0)], False))) 8 = Some (Some (255, 0, 0))
   \<and> slotsOf (fst (processComponent [link 14 (2, 3) (7, 8)] holdingStore
                   ([(2, 3) \<mapsto> Some (255, 0, 0)], False))) 9 = Some None
   \<and> slotsOf (fst (processComponent [link 14 (2, 3) (7, 8)] holdingStore
                   ([(2, 3) \<mapsto> Some (255, 0, 0)], False))) 10 = None
   \<and> storedColor (components unplugged ! 0) 8 = Some (255, 0, 0)
   \<and> storedColor (components (computeColors unplugged) ! 0) 8 = None"
proof -
  let ?conns = "[link 14 (2, 3) (7, 8)]"
  let ?m = "[(2::nat, 3::nat) \<mapsto> Some (255::rat, 0::rat, 0::rat)]"
  have t: "comp_type holdingStore = Storage" by (simp add: holdingStore_def)
  have e8: "slotsOf (fst (processComponent ?conns holdingStore (?m, False))) 8
      = Some (Some (255, 0, 0))"
    using storage_held_colour [of holdingStore ?conns ?m False 8 0 unplugged
      "\<lparr>port_id = 8, port_role = Flex\<rparr>"] t
    by (simp add: holdingStore_def slotsOf_def slotRead_def inboundColor_def findInbound_def
          link_def getOutput_def portKey_def)
  have e9: "slotsOf (fst (processComponent ?conns holdingStore (?m, False))) 9 = Some None"
    using storage_held_colour [of holdingStore ?conns ?m False 9 0 unplugged
      "\<lparr>port_id = 8, port_role = Flex\<rparr>"] t
    by (simp add: holdingStore_def slotsOf_def slotRead_def inboundColor_def findInbound_def
          link_def getOutput_def portKey_def)
  have e10: "slotsOf (fst (processComponent ?conns holdingStore (?m, False))) 10 = None"
    using storage_held_colour [of holdingStore ?conns ?m False 10 0 unplugged
      "\<lparr>port_id = 8, port_role = Flex\<rparr>"] t
    by (simp add: holdingStore_def slotsOf_def slotRead_def inboundColor_def findInbound_def
          link_def getOutput_def portKey_def)
  have 1: "0 < length (components unplugged)" by code_simp
  have 2: "comp_type (components unplugged ! 0) = Storage" by code_simp
  have 3: "\<lparr>port_id = 8, port_role = Flex\<rparr> \<in> set (comp_ports (components unplugged ! 0))"
    by code_simp
  have 4: "findInbound (connections unplugged) (comp_id (components unplugged ! 0)) 8 = None"
    by (simp add: unplugged_connections findInbound_def)
  from storage_held_colour [of holdingStore ?conns ?m False 8 0 unplugged
      "\<lparr>port_id = 8, port_role = Flex\<rparr>"] 1 2 3 4
  have "storedColor (components (computeColors unplugged) ! 0) 8 = None" by simp
  with unplugged_held e8 e9 e10 show ?thesis by simp
qed

subsection \<open>Adders\<close>

lemma adderOut_two:
  assumes "filter (\<lambda>p. port_role p = Input) (comp_ports c) = [pa, pb]"
  shows "adderOut conns m c =
     (case (inboundColor conns m (comp_id c) (port_id pa),
            inboundColor conns m (comp_id c) (port_id pb)) of
        (Some a, Some b) \<Rightarrow> Some (mixColors a b)
      | _ \<Rightarrow> None)"
  by (simp add: adderOut_def inputColors_def assms List.map_filter_simps
           split: option.splits)

lemma computeColors_stable:
  assumes "converged st"
  shows "stable (connections st) (portColors st) (components (computeColors st))"
  using assms computeLoop_stable [of True "connections st" Map.empty "components st" 0]
  by (simp add: converged_def portColors_def computeColors_def computeColors_run_def)

text \<open>
  Claim C1, amended: after a \<open>computeColors\<close> that converged (its last round changed
  nothing), every output port of an adder with its two input ports shows
  \<open>mixColors a b\<close> if and only if both inputs read colours \<open>a\<close> and \<open>b\<close> from the
  sources of their inbound connections in the final port-output map; if either input is
  unconnected or its source is absent, the output is absent.
\<close>

theorem adder_output_when_converged:
  assumes "converged st"
    and "c \<in> set (components (computeColors st))" and "comp_type c = Adder"
    and "filter (\<lambda>p. port_role p = Input) (comp_ports c) = [pa, pb]"
    and "po \<in> set (comp_ports c)" and "port_role po = Output"
  shows "getOutput (portColors st) (comp_id c, port_id po) =
     (case (inboundColor (connections st) (portColors st) (comp_id c) (port_id pa),
            inboundColor (connections st) (portColors st) (comp_id c) (port_id pb)) of
        (Some a, Some b) \<Rightarrow> Some (mixColors a b)
      | _ \<Rightarrow> None)"
proof -
  from assms(3,5,6) have "po \<in> set (outPorts c)" by (simp add: outPorts_def)
  with computeColors_stable [OF assms(1)] assms(2,3)
  have "getOutput (portColors st) (comp_id c, port_id po)
      = emitted (connections st) (portColors st) c"
    by (auto simp: stable_def)
  also have "\<dots> = adderOut (connections st) (portColors st) c"
    using assms(3) by (simp add: emitted_def)
  finally show ?thesis by (simp add: adderOut_two [OF assms(4)])
qed

lemma laggingGrid_run:
  "(case computeColors_run laggingGrid of
      (changed, guard, m, comps) \<Rightarrow>
        changed \<and> guard = 8 \<and> getOutput m (6, 8) = Some (255, 0, 0) \<and> getOutput m (2, 5) = None)"
  by code_simp

lemma laggingGrid_inbound:
  "findInbound (connections laggingGrid) 2 3 = Some (link 39 (6, 8) (2, 3))"
  "findInbound (connections laggingGrid) 2 4 = Some (link 40 (6, 8) (2, 4))"
  by code_simp+

subsection \<open>The sample grids are reachable\<close>

text \<open>\<open>computeColors\<close> leaves a grid without storage containers as it is, which lets
  the operations that build \<open>laggingGrid\<close> be replayed without running the engine.\<close>

lemma forEachComponent_plain:
  "\<forall>c\<in>set comps. comp_type c \<noteq> Storage \<Longrightarrow> fst (forEachComponent conns comps (m, ch)) = comps"
proof (induction comps arbitrary: m ch)
  case Nil
  show ?case by simp
next
  case (Cons c cs)
  obtain m' ch' where r: "snd (processComponent conns c (m, ch)) = (m', ch')"
    by (cases "snd (processComponent conns c (m, ch))")
  from Cons.prems have "comp_type c \<noteq> Storage" "\<forall>c\<in>set cs. comp_type c \<noteq> Storage" by simp_all
  with Cons.IH [of m' ch'] r show ?case
    by (simp add: forEachComponent_Cons processComponent_plain)
qed

lemma computeLoop_plain:
  "\<forall>c\<in>set comps. comp_type c \<noteq> Storage \<Longrightarrow>
   snd (snd (snd (computeLoop conns ch g m comps))) = comps"
proof (induction conns ch g m comps rule: computeLoop.induct)
  case (1 conns changed guard m comps)
  show ?case
  proof (cases "changed \<and> guard < 8")
    case True
    obtain comps' m' changed' where fe: "forEachComponent conns comps (m, False) = (comps', m', changed')"
      by (cases "forEachComponent conns comps (m, False)")
    have eq: "comps' = comps"
      using forEachComponent_plain [OF "1.prems", of conns m False] fe by simp
    from "1.IH" [OF True fe [symmetric] refl] "1.prems" True fe eq show ?thesis
      by (simp add: computeLoop_step)
  next
    case False
    then show ?thesis by (simp add: computeLoop_stop)
  qed
qed

lemma computeColors_plain:
  "\<forall>c\<in>set (components st). comp_type c \<noteq> Storage \<Longrightarrow> computeColors st = st"
  by (simp add: computeColors_def computeColors_run_def computeLoop_plain)

lemma laggingParts_eq:
  "laggingParts = laggingGrid\<lparr>connections := [], idCounter := 31\<rparr>"
  by (simp add: laggingParts_def laggingGrid_def handleToolbarClick_def createComponent_def
        buildPorts_def addPort_def nextId_def resetGrid_def initialState_def computeColors_plain
        gradientor_def brightener_def noOptions_def Let_def split_def eval_nat_numeral)


lemma laggingOps_eq: "laggingOps = laggingGrid"
  by (simp add: laggingOps_def laggingParts_eq laggingGrid_def tryConnect_eq
        resolveConnection_def getPort_def canAccept_def canSend_def connectionExists_def
        computeColors_plain gradientor_def link_def mkRef_def Let_def)

lemma reachable_toolbar_funpow:
  "reachable st \<Longrightarrow> reachable ((handleToolbarClick t opts ^^ n) st)"
  by (induction n) (simp_all add: r_toolbar)

lemma reachable_laggingGrid: "reachable laggingGrid"
proof -
  have "reachable laggingOps"
    unfolding laggingOps_def laggingParts_def
    by (intro reachable.intros reachable_toolbar_funpow)
  then show ?thesis by (simp add: laggingOps_eq)
qed

lemma reachable_storedGrid: "reachable storedGrid"
  unfolding storedGrid_def by (intro reachable.intros)

lemma reachable_adderGrid: "reachable adderGrid"
  unfolding adderGrid_def by (intro reachable.intros)

text \<open>
  Claim C1, as stated, for every grid after \<open>computeColors\<close>. In \<open>laggingGrid\<close> the
  adder was created first, then seven brightening gradientors, then a red factory, and
  the colour flows from the factory through the gradientors, last created first, into
  both inputs of the adder. Every round carries the colour one component further; the
  eighth round reaches the gradientor next to the adder and the loop stops at its cap.
  Both inputs of the adder then read red from the final map, yet its output is absent.
  The grid is reachable (\<open>reachable_laggingGrid\<close>).
\<close>

theorem adder_lags_counterexample:
  "inboundColor (connections laggingGrid) (portColors laggingGrid) 2 3 = Some (255, 0, 0)
   \<and> inboundColor (connections laggingGrid) (portColors laggingGrid) 2 4 = Some (255, 0, 0)
   \<and> getOutput (portColors laggingGrid) (2, 5) = None
   \<and> rounds laggingGrid = 8 \<and> \<not> converged laggingGrid"
  using laggingGrid_run
  by (simp add: inboundColor_def laggingGrid_inbound portColors_def rounds_def converged_def
        link_def portKey_def split_def)

lemma adderGrid_adder:
  "1 < length (components (computeColors adderGrid))
   \<and> comp_type (components (computeColors adderGrid) ! 1) = Adder
   \<and> comp_id (components (computeColors adderGrid) ! 1) = 7
   \<and> comp_ports (components (computeColors adderGrid) ! 1)
       = [\<lparr>port_id = 8, port_role = Input\<rparr>, \<lparr>port_id = 9, port_role = Input\<rparr>,
          \<lparr>port_id = 10, port_role = Output\<rparr>]"
  by code_simp

lemma adderGrid_inbound:
  "converged adderGrid
   \<and> inboundColor (connections adderGrid) (portColors adderGrid) 7 8 = Some (255, 0, 0)
   \<and> inboundColor (connections adderGrid) (portColors adderGrid) 7 9 = Some (255, 0, 0)"
  by code_simp

theorem adder_output_when_converged_witness:
  "converged adderGrid
   \<and> inboundColor (connections adderGrid) (portColors adderGrid) 7 8 = Some (255, 0, 0)
   \<and> inboundColor (connections adderGrid) (portColors adderGrid) 7 9 = Some (255, 0, 0)
   \<and> getOutput (portColors adderGrid) (7, 10) = Some (mixColors (255, 0, 0) (255, 0, 0))"
proof -
  let ?c = "components (computeColors adderGrid) ! 1"
  note a = adderGrid_adder and b = adderGrid_inbound
  have c: "converged adderGrid" using b by blast
  have 1: "?c \<in> set (components (computeColors adderGrid))"
    using a by (intro nth_mem) blast
  have 2: "comp_type ?c = Adder" using a by blast
  have ports: "comp_ports ?c = [\<lparr>port_id = 8, port_role = Input\<rparr>, \<lparr>port_id = 9, port_role = Input\<rparr>,
          \<lparr>port_id = 10, port_role = Output\<rparr>]" using a by blast
  have 3: "filter (\<lambda>p. port_role p = Input) (comp_ports ?c)
      = [\<lparr>port_id = 8, port_role = Input\<rparr>, \<lparr>port_id = 9, port_role = Input\<rparr>]"
    unfolding ports by simp
  have 4: "\<lparr>port_id = 10, port_role = Output\<rparr> \<in> set (comp_ports ?c)" unfolding ports by simp
  have 5: "comp_id ?c = 7" using a by blast
  have 6: "inboundColor (connections adderGrid) (portColors adderGrid) 7 8 = Some (255, 0, 0)"
    and 7: "inboundColor (connections adderGrid) (portColors adderGrid) 7 9 = Some (255, 0, 0)"
    using b by blast+
  have "getOutput (portColors adderGrid) (7, 10) = Some (mixColors (255, 0, 0) (255, 0, 0))"
    by (simp add: adder_output_when_converged [OF c 1 2 3 4, unfolded 5 port.simps] 6 7)
  with c 6 7 show ?thesis by blast
qed

end
